theory Spec2Isabelle
  imports Main "HOL-Library.AList" "HOL-Library.Sublist" "HOL-Library.Monad_Syntax"
begin

section \<open>Values of the host language\<close>

text \<open>
  Strings are sequences of bytes (the UTF-8 text of the source), numbers are integers:
  every number the program handles is an identifier, a score, a count or an instant in
  milliseconds. \<open>toString\<close> renders an integer in decimal, as the host does for every
  integer of magnitude below \<open>10\<^sup>2\<^sup>1\<close>; from there on the host writes an exponent, which
  no identifier, score, count or instant of the service reaches.
\<close>

fun digits :: "nat \<Rightarrow> string" where
  "digits n = (if n < 10 then [char_of (48 + n)] else digits (n div 10) @ [char_of (48 + n mod 10)])"

declare digits.simps [simp del]

definition toString :: "int \<Rightarrow> string" where
  "toString i = (if i < 0 then CHR ''-'' # digits (nat (- i)) else digits (nat i))"

text \<open>\<open>Array.prototype.join\<close> on an array of strings.\<close>

fun join :: "string \<Rightarrow> string list \<Rightarrow> string" where
  "join sep [] = []"
| "join sep [x] = x"
| "join sep (x # y # ys) = x @ sep @ join sep (y # ys)"

text \<open>\<open>String.prototype.includes\<close>.\<close>

definition str_includes :: "string \<Rightarrow> string \<Rightarrow> bool" where
  "str_includes s part = sublist part s"

text \<open>
  Truthiness of an optional value: \<open>undefined\<close>, the number zero, the empty string and
  \<open>false\<close> are falsy; an array is truthy whenever it is present.
\<close>

definition truthy_num :: "int option \<Rightarrow> bool" where
  "truthy_num x = (case x of None \<Rightarrow> False | Some n \<Rightarrow> n \<noteq> 0)"

definition truthy_str :: "string option \<Rightarrow> bool" where
  "truthy_str x = (case x of None \<Rightarrow> False | Some s \<Rightarrow> s \<noteq> [])"

definition truthy_bool :: "bool option \<Rightarrow> bool" where
  "truthy_bool x = (case x of None \<Rightarrow> False | Some b \<Rightarrow> b)"

definition truthy_arr :: "'a list option \<Rightarrow> bool" where
  "truthy_arr x = (case x of None \<Rightarrow> False | Some xs \<Rightarrow> True)"

text \<open>An optional value inside a template literal.\<close>

definition template_str :: "string option \<Rightarrow> string" where
  "template_str x = (case x of None \<Rightarrow> ''undefined'' | Some s \<Rightarrow> s)"

definition template_num :: "int option \<Rightarrow> string" where
  "template_num x = (case x of None \<Rightarrow> ''undefined'' | Some n \<Rightarrow> toString n)"

section \<open>Thrown values\<close>

text \<open>
  The error codes of the protocol library and the values that can be thrown: a protocol
  error built with \<open>new McpError(code, message)\<close>, any other \<open>Error\<close> instance (its
  message and, when it has one, its numeric \<open>status\<close> property), an object that is not an
  \<open>Error\<close> (with its \<open>status\<close> property, when it has one), and a primitive (with its
  rendering by \<open>String\<close>).
\<close>

datatype ErrorCode = InvalidRequest | MethodNotFound | InvalidParams | InternalError

datatype thrown =
    McpError ErrorCode string
  | JsError string "int option"
  | JsObject "int option"
  | JsPrimitive string

definition code_number :: "ErrorCode \<Rightarrow> int" where
  "code_number c = (case c of InvalidRequest \<Rightarrow> - 32600 | MethodNotFound \<Rightarrow> - 32601
                    | InvalidParams \<Rightarrow> - 32602 | InternalError \<Rightarrow> - 32603)"

text \<open>
  The \<open>message\<close> property of an \<open>Error\<close> instance. The protocol library's constructor
  prefixes the message it is given with the numeric code.
\<close>

definition error_message_of :: "thrown \<Rightarrow> string option" where
  "error_message_of e =
     (case e of
        McpError c m \<Rightarrow> Some (''MCP error '' @ toString (code_number c) @ '': '' @ m)
      | JsError m st \<Rightarrow> Some m
      | JsObject st \<Rightarrow> None
      | JsPrimitive s \<Rightarrow> None)"

text \<open>\<open>error instanceof Error ? error.message : String(error)\<close>\<close>

definition error_text :: "thrown \<Rightarrow> string" where
  "error_text e =
     (case error_message_of e of
        Some m \<Rightarrow> m
      | None \<Rightarrow> (case e of JsPrimitive s \<Rightarrow> s | _ \<Rightarrow> ''[object Object]''))"

definition status_of :: "thrown \<Rightarrow> int option" where
  "status_of e = (case e of JsError m st \<Rightarrow> st | JsObject st \<Rightarrow> st | _ \<Rightarrow> None)"

text \<open>The test of \<open>withRateLimit\<close> for a failure that signals remote rate limiting.\<close>

definition is_rate_limited :: "thrown \<Rightarrow> bool" where
  "is_rate_limited e =
     ((case error_message_of e of Some m \<Rightarrow> str_includes m ''429'' | None \<Rightarrow> False)
      \<or> status_of e = Some 429)"

section \<open>Rate limiter\<close>

text \<open>
  The server object keeps the instants of its recent outbound calls in
  \<open>requestTimestamps\<close>. The clock read by \<open>Date.now()\<close> and everything outside
  the process (\<open>net\<close>) are made explicit in the state that every operation threads.
  Instants are integral milliseconds.
\<close>

definition MAX_REQUESTS_PER_WINDOW :: nat where
  "MAX_REQUESTS_PER_WINDOW = 30"

definition RATE_LIMIT_WINDOW_MS :: int where
  "RATE_LIMIT_WINDOW_MS = 60000"

definition RETRY_AFTER_MS :: int where
  "RETRY_AFTER_MS = 2000"

record 'n world =
  now :: int
  requestTimestamps :: "int list"
  net :: 'n

definition checkRateLimit :: "'n world \<Rightarrow> bool \<times> 'n world" where
  "checkRateLimit w =
     (let ts = filter (\<lambda>timestamp. now w - timestamp < RATE_LIMIT_WINDOW_MS) (requestTimestamps w)
      in if length ts \<ge> MAX_REQUESTS_PER_WINDOW
         then (False, w\<lparr>requestTimestamps := ts\<rparr>)
         else (True, w\<lparr>requestTimestamps := ts @ [now w]\<rparr>))"

text \<open>
  A sequence of calls of \<open>checkRateLimit\<close>, the clock reading at each call given
  by the list: the answers of the calls, in order, and the state left behind.
\<close>

fun checkRateLimit_calls :: "int list \<Rightarrow> 'n world \<Rightarrow> bool list \<times> 'n world" where
  "checkRateLimit_calls [] w = ([], w)"
| "checkRateLimit_calls (t # ts) w =
     (case checkRateLimit (w\<lparr>now := t\<rparr>) of
        (permitted, w') \<Rightarrow>
          (case checkRateLimit_calls ts w' of
             (rest, w'') \<Rightarrow> (permitted # rest, w'')))"

text \<open>
  The step of the rate limiter in the words of the specification, to be compared with
  \<open>checkRateLimit\<close>: on each call, discard all instants older than the window duration
  (60 seconds); then, if the remaining count is at or above the ceiling (30), deny;
  otherwise append the current instant and permit. An instant is older than 60 seconds
  when more than 60000 milliseconds have passed since.
\<close>

definition permit_spec :: "int \<Rightarrow> int list \<Rightarrow> bool \<times> int list" where
  "permit_spec t instants =
     (let remaining = filter (\<lambda>i. \<not> (t - i > 60000)) instants
      in if length remaining \<ge> 30 then (False, remaining) else (True, remaining @ [t]))"

section \<open>Throttled invocation\<close>

text \<open>
  An asynchronous operation acts on the outside world and takes time: it returns its
  outcome (\<open>Inl\<close> what it threw), the new outside state and the milliseconds it took.
  Waiting on a timer moves the clock by the timer's delay.
\<close>

type_synonym ('n, 'a) operation = "'n \<Rightarrow> (thrown + 'a) \<times> 'n \<times> nat"

definition elapse :: "int \<Rightarrow> 'n world \<Rightarrow> 'n world" where
  "elapse ms w = w\<lparr>now := now w + ms\<rparr>"

definition run_operation :: "('n, 'a) operation \<Rightarrow> 'n world \<Rightarrow> (thrown + 'a) \<times> 'n world" where
  "run_operation fn w =
     (case fn (net w) of (outcome, n, dt) \<Rightarrow> (outcome, elapse (int dt) (w\<lparr>net := n\<rparr>)))"

text \<open>
  The time still to pass before every recorded instant has left the window; it is what
  makes the retry after a local denial come to an end.
\<close>

definition window_load :: "'n world \<Rightarrow> nat" where
  "window_load w = (\<Sum>t\<leftarrow>requestTimestamps w. nat (t + RATE_LIMIT_WINDOW_MS - now w))"

function withRateLimit :: "('n, 'a) operation \<Rightarrow> nat \<Rightarrow> 'n world \<Rightarrow> (thrown + 'a) \<times> 'n world" where
  "withRateLimit fn retries w =
     (case checkRateLimit w of
        (permitted, w1) \<Rightarrow>
          if \<not> permitted then withRateLimit fn retries (elapse RETRY_AFTER_MS w1)
          else
            (case run_operation fn w1 of
               (Inr v, w2) \<Rightarrow> (Inr v, w2)
             | (Inl error, w2) \<Rightarrow>
                 if retries > 0 \<and> is_rate_limited error
                 then withRateLimit fn (retries - 1) (elapse RETRY_AFTER_MS w2)
                 else (Inl error, w2)))"
  by pat_completeness auto


termination withRateLimit
proof (relation "measures [\<lambda>(fn, retries, w). retries, \<lambda>(fn, retries, w). window_load w]", goal_cases)
  case 1
  show ?case by simp
next
  case (2 fn retries w permitted w1)
  define F where "F = filter (\<lambda>t. now w - t < RATE_LIMIT_WINDOW_MS) (requestTimestamps w)"
  have w1: "w1 = w\<lparr>requestTimestamps := F\<rparr>" and len: "MAX_REQUESTS_PER_WINDOW \<le> length F"
    using 2 by (auto simp: checkRateLimit_def Let_def F_def split: if_splits)
  have ne: "F \<noteq> []"
    using len by (auto simp: MAX_REQUESTS_PER_WINDOW_def)
  have inside: "\<forall>t\<in>set F. now w - t < RATE_LIMIT_WINDOW_MS"
    by (simp add: F_def)
  have aged: "(\<Sum>t\<leftarrow>filter (\<lambda>t. n - t < RATE_LIMIT_WINDOW_MS) ts. nat (t + RATE_LIMIT_WINDOW_MS - n))
              = (\<Sum>t\<leftarrow>ts. nat (t + RATE_LIMIT_WINDOW_MS - n))" for n ts
    by (induction ts) auto
  have waited: "\<forall>t\<in>set ts. n - t < RATE_LIMIT_WINDOW_MS \<Longrightarrow> ts \<noteq> [] \<Longrightarrow>
        (\<Sum>t\<leftarrow>ts. nat (t + RATE_LIMIT_WINDOW_MS - (n + RETRY_AFTER_MS)))
          < (\<Sum>t\<leftarrow>ts. nat (t + RATE_LIMIT_WINDOW_MS - n))" for n ts
  proof (induction ts)
    case Nil
    then show ?case by simp
  next
    case (Cons a ts)
    have rest: "(\<Sum>t\<leftarrow>ts. nat (t + RATE_LIMIT_WINDOW_MS - (n + RETRY_AFTER_MS)))
                 \<le> (\<Sum>t\<leftarrow>ts. nat (t + RATE_LIMIT_WINDOW_MS - n))"
      by (rule sum_list_mono) (simp add: RETRY_AFTER_MS_def)
    have "nat (a + RATE_LIMIT_WINDOW_MS - (n + RETRY_AFTER_MS)) < nat (a + RATE_LIMIT_WINDOW_MS - n)"
      using Cons.prems by (simp add: RETRY_AFTER_MS_def)
    then show ?case
      using rest by (simp del: nat_less_iff zless_nat_conj)
  qed
  have "window_load (elapse RETRY_AFTER_MS w1)
        = (\<Sum>t\<leftarrow>F. nat (t + RATE_LIMIT_WINDOW_MS - (now w + RETRY_AFTER_MS)))"
    by (simp add: window_load_def elapse_def w1)
  also have "\<dots> < (\<Sum>t\<leftarrow>F. nat (t + RATE_LIMIT_WINDOW_MS - now w))"
    using inside ne by (rule waited)
  also have "\<dots> = window_load w"
    unfolding F_def window_load_def by (rule aged)
  finally show ?case by simp
next
  case (3 fn retries w permitted w1 outcome w2 error)
  then show ?case by simp
qed

declare withRateLimit.simps [simp del]

text \<open>
  A test double that counts how often the operation it wraps is attempted, the way a
  mock function records its calls.
\<close>

definition counted :: "('n, 'a) operation \<Rightarrow> ('n \<times> nat, 'a) operation" where
  "counted fn = (\<lambda>(s, k). case fn s of (outcome, s', dt) \<Rightarrow> (outcome, (s', Suc k), dt))"

text \<open>
  The branch of \<open>withRateLimit\<close> that is taken once the limiter has permitted the call.
\<close>

definition attempt :: "('n, 'a) operation \<Rightarrow> nat \<Rightarrow> 'n world \<Rightarrow> (thrown + 'a) \<times> 'n world" where
  "attempt fn retries w1 =
     (case run_operation fn w1 of
        (Inr v, w2) \<Rightarrow> (Inr v, w2)
      | (Inl error, w2) \<Rightarrow>
          if retries > 0 \<and> is_rate_limited error
          then withRateLimit fn (retries - 1) (elapse RETRY_AFTER_MS w2)
          else (Inl error, w2))"

text \<open>
  Test doubles: an operation that is refused with status 429 on its first two attempts and
  succeeds on the third (its state is the number of attempts so far), and one that always
  fails for another reason.
\<close>

definition flaky_operation :: "(nat, string) operation" where
  "flaky_operation k =
     (if k < 2 then (Inl (JsError ''Request failed with status 429'' None), Suc k, 120)
      else (Inr ''success'', Suc k, 120))"

definition broken_operation :: "(nat, string) operation" where
  "broken_operation k = (Inl (JsError ''connection reset'' None), Suc k, 5)"

section \<open>Data model\<close>

text \<open>
  The records follow the interfaces of the type declarations. An answer's identifier is
  optional because the aggregation loop itself tests it against \<open>undefined\<close>. The mapping
  from answer identifiers to comments is an object used as a dictionary: an association
  list with one entry per key.
\<close>

record StackOverflowQuestion =
  question_id :: int
  title :: string
  body :: string
  score :: int
  answer_count :: int
  is_answered :: bool
  accepted_answer_id :: "int option"
  creation_date :: int
  tags :: "string list"
  link :: string

record StackOverflowAnswer =
  answer_id :: "int option"
  question_id :: int
  score :: int
  is_accepted :: bool
  body :: string
  creation_date :: int
  link :: string

record StackOverflowComment =
  comment_id :: int
  post_id :: int
  score :: int
  body :: string
  creation_date :: int

record SearchResultComments =
  question :: "StackOverflowComment list"
  answers :: "(int \<times> StackOverflowComment list) list"

record SearchResult =
  question :: StackOverflowQuestion
  answers :: "StackOverflowAnswer list"
  comments :: "SearchResultComments option"

record credentials =
  apiKey :: "string option"
  accessToken :: "string option"

section \<open>The external service\<close>

text \<open>
  A request is its method, its address and its parameters (the query of a GET, the
  form-encoded body of a POST). The outside state \<open>net\<close> of the client is the list of the
  requests sent so far. The service is any deterministic function of that history and of
  the request: each call either rejects (the transport failed) or resolves to a response
  with its \<open>ok\<close> flag and the outcome of reading its body as JSON, after some milliseconds.
  A body is the common wrapper of the service: the items, and the error fields of an error
  response. There is one family of endpoints per type of item.
\<close>

datatype http_verb = GET | POST

record request =
  http_method :: http_verb
  url :: string
  params :: "(string \<times> string) list"

record 'a api_payload =
  items :: "'a list option"
  error_id :: "int option"
  error_name :: "string option"
  error_message :: "string option"

record 'a response =
  ok :: bool
  json :: "thrown + 'a api_payload"

type_synonym 'a endpoint = "request list \<Rightarrow> request \<Rightarrow> (thrown + 'a response) \<times> nat"

record remote =
  questions_api :: "StackOverflowQuestion endpoint"
  answers_api :: "StackOverflowAnswer endpoint"
  comments_api :: "StackOverflowComment endpoint"
  votes_api :: "unit endpoint"

definition fetch :: "'a endpoint \<Rightarrow> request \<Rightarrow> (request list, 'a response) operation" where
  "fetch endpoint req sent = (case endpoint sent req of (outcome, dt) \<Rightarrow> (outcome, sent @ [req], dt))"

definition STACKOVERFLOW_API :: string where
  "STACKOVERFLOW_API = ''https://api.stackexchange.com/2.3''"

definition DEFAULT_FILTER :: string where
  "DEFAULT_FILTER = ''!*MZqiDl8Y0c)yVzXS''"

definition ANSWER_FILTER :: string where
  "ANSWER_FILTER = ''!*MZqiDl8Y0c)yVzXS''"

definition COMMENT_FILTER :: string where
  "COMMENT_FILTER = ''!*Mg-gxeRLu''"

text \<open>The key and the token are appended to the parameters of a read when they are set.\<close>

definition auth_params :: "credentials \<Rightarrow> (string \<times> string) list" where
  "auth_params this =
     (if truthy_str (apiKey this) then [(''key'', template_str (apiKey this))] else [])
     @ (if truthy_str (accessToken this) then [(''access_token'', template_str (accessToken this))] else [])"

text \<open>The error thrown for a response that is not \<open>ok\<close>, from its parsed body.\<close>

definition api_error :: "string \<Rightarrow> 'a api_payload \<Rightarrow> thrown" where
  "api_error pre errorData =
     McpError InvalidRequest
       (pre @ template_str (error_message errorData) @ '' ('' @ template_num (error_id errorData) @ '')'')"

text \<open>
  The \<open>catch\<close> block of the read operations: a protocol error is thrown again as it is,
  anything else is wrapped into an internal error.
\<close>

definition rethrow :: "string \<Rightarrow> thrown \<Rightarrow> thrown" where
  "rethrow pre error =
     (case error of
        McpError c m \<Rightarrow> error
      | _ \<Rightarrow> McpError InternalError (pre @ error_text error))"

section \<open>Read operations\<close>

definition answers_request :: "credentials \<Rightarrow> int \<Rightarrow> request" where
  "answers_request this questionId =
     \<lparr>http_method = GET,
      url = STACKOVERFLOW_API @ ''/questions/'' @ toString questionId @ ''/answers'',
      params = [(''site'', ''stackoverflow''), (''filter'', ANSWER_FILTER),
                (''sort'', ''votes''), (''order'', ''desc'')] @ auth_params this\<rparr>"

definition fetchAnswers ::
  "credentials \<Rightarrow> remote \<Rightarrow> int \<Rightarrow> request list world \<Rightarrow> (thrown + StackOverflowAnswer list) \<times> request list world" where
  "fetchAnswers this api questionId w =
     (case withRateLimit (fetch (answers_api api) (answers_request this questionId)) 3 w of
           (Inl error, w1) \<Rightarrow> (Inl (rethrow ''Failed to fetch answers: '' error), w1)
         | (Inr response, w1) \<Rightarrow>
             if \<not> ok response then
               (case json response of
                  Inl error \<Rightarrow> (Inl (rethrow ''Failed to fetch answers: '' error), w1)
                | Inr errorData \<Rightarrow> (Inl (api_error ''Stack Overflow API error: '' errorData), w1))
             else
               (case json response of
                  Inl error \<Rightarrow> (Inl (rethrow ''Failed to fetch answers: '' error), w1)
                | Inr data \<Rightarrow> (Inr (case items data of None \<Rightarrow> [] | Some xs \<Rightarrow> xs), w1)))"

definition comments_request :: "credentials \<Rightarrow> int \<Rightarrow> request" where
  "comments_request this postId =
     \<lparr>http_method = GET,
      url = STACKOVERFLOW_API @ ''/posts/'' @ toString postId @ ''/comments'',
      params = [(''site'', ''stackoverflow''), (''filter'', COMMENT_FILTER),
                (''sort'', ''votes''), (''order'', ''desc'')] @ auth_params this\<rparr>"

definition fetchComments ::
  "credentials \<Rightarrow> remote \<Rightarrow> int \<Rightarrow> request list world \<Rightarrow> (thrown + StackOverflowComment list) \<times> request list world" where
  "fetchComments this api postId w =
     (case withRateLimit (fetch (comments_api api) (comments_request this postId)) 3 w of
           (Inl error, w1) \<Rightarrow> (Inl (rethrow ''Failed to fetch comments: '' error), w1)
         | (Inr response, w1) \<Rightarrow>
             if \<not> ok response then
               (case json response of
                  Inl error \<Rightarrow> (Inl (rethrow ''Failed to fetch comments: '' error), w1)
                | Inr errorData \<Rightarrow> (Inl (api_error ''Stack Overflow API error: '' errorData), w1))
             else
               (case json response of
                  Inl error \<Rightarrow> (Inl (rethrow ''Failed to fetch comments: '' error), w1)
                | Inr data \<Rightarrow> (Inr (case items data of None \<Rightarrow> [] | Some xs \<Rightarrow> xs), w1)))"

text \<open>\<open>fetchQuestion\<close> has no \<open>catch\<close> block: what is thrown inside reaches the caller as it is.\<close>

definition question_request :: "credentials \<Rightarrow> int \<Rightarrow> request" where
  "question_request this questionId =
     \<lparr>http_method = GET,
      url = STACKOVERFLOW_API @ ''/questions/'' @ toString questionId,
      params = [(''site'', ''stackoverflow''), (''filter'', DEFAULT_FILTER)] @ auth_params this\<rparr>"

definition fetchQuestion ::
  "credentials \<Rightarrow> remote \<Rightarrow> int \<Rightarrow> request list world \<Rightarrow> (thrown + StackOverflowQuestion option) \<times> request list world" where
  "fetchQuestion this api questionId w =
     (case withRateLimit (fetch (questions_api api) (question_request this questionId)) 3 w of
           (Inl error, w1) \<Rightarrow> (Inl error, w1)
         | (Inr response, w1) \<Rightarrow>
             if \<not> ok response then
               (case json response of
                  Inl error \<Rightarrow> (Inl error, w1)
                | Inr errorData \<Rightarrow> (Inl (api_error ''Stack Overflow API error: '' errorData), w1))
             else
               (case json response of
                  Inl error \<Rightarrow> (Inl error, w1)
                | Inr data \<Rightarrow>
                    (Inr (case items data of None \<Rightarrow> None | Some [] \<Rightarrow> None | Some (q # qs) \<Rightarrow> Some q), w1)))"

section \<open>Aggregation\<close>

record search_options =
  minScore :: "int option"
  limit :: "int option"
  includeComments :: "bool option"

text \<open>The loop over the answers of one question that fills the mapping of comments.\<close>

fun answer_comments_loop ::
  "credentials \<Rightarrow> remote \<Rightarrow> StackOverflowAnswer list \<Rightarrow> (int \<times> StackOverflowComment list) list
    \<Rightarrow> request list world \<Rightarrow> (thrown + (int \<times> StackOverflowComment list) list) \<times> request list world" where
  "answer_comments_loop this api [] answersMap w = (Inr answersMap, w)"
| "answer_comments_loop this api (answer # rest) answersMap w =
     (case answer_id answer of
        None \<Rightarrow> answer_comments_loop this api rest answersMap w
      | Some aid \<Rightarrow>
          (case fetchComments this api aid w of
             (Inl error, w1) \<Rightarrow> (Inl error, w1)
           | (Inr cs, w1) \<Rightarrow> answer_comments_loop this api rest (AList.update aid cs answersMap) w1))"

text \<open>
  The client-side score filter, and the loop over the questions that a search returned,
  with the results so far.
\<close>

definition skipped :: "search_options \<Rightarrow> StackOverflowQuestion \<Rightarrow> bool" where
  "skipped options q \<longleftrightarrow>
     truthy_num (minScore options) \<and> StackOverflowQuestion.score q < the (minScore options)"

fun questions_loop ::
  "credentials \<Rightarrow> remote \<Rightarrow> search_options \<Rightarrow> StackOverflowQuestion list \<Rightarrow> SearchResult list
    \<Rightarrow> request list world \<Rightarrow> (thrown + SearchResult list) \<times> request list world" where
  "questions_loop this api options [] results w = (Inr results, w)"
| "questions_loop this api options (q # rest) results w =
     (if skipped options q
      then questions_loop this api options rest results w
      else
        (case fetchAnswers this api (StackOverflowQuestion.question_id q) w of
           (Inl error, w1) \<Rightarrow> (Inl error, w1)
         | (Inr ans, w1) \<Rightarrow>
             if truthy_bool (includeComments options) then
               (case fetchComments this api (StackOverflowQuestion.question_id q) w1 of
                  (Inl error, w2) \<Rightarrow> (Inl error, w2)
                | (Inr qcs, w2) \<Rightarrow>
                    (case answer_comments_loop this api ans [] w2 of
                       (Inl error, w3) \<Rightarrow> (Inl error, w3)
                     | (Inr answersMap, w3) \<Rightarrow>
                         questions_loop this api options rest
                           (results @ [\<lparr>SearchResult.question = q, SearchResult.answers = ans,
                                        comments = Some \<lparr>SearchResultComments.question = qcs,
                                                         SearchResultComments.answers = answersMap\<rparr>\<rparr>])
                           w3))
             else
               questions_loop this api options rest
                 (results @ [\<lparr>SearchResult.question = q, SearchResult.answers = ans, comments = None\<rparr>])
                 w1))"

text \<open>
  Iterating over the items of a body that has none throws a \<open>TypeError\<close>, which the
  \<open>catch\<close> block wraps.
\<close>

definition not_iterable :: thrown where
  "not_iterable = JsError ''data.items is not iterable'' None"

definition search_request :: "credentials \<Rightarrow> string \<Rightarrow> string list option \<Rightarrow> search_options \<Rightarrow> request" where
  "search_request this query tgs options =
     \<lparr>http_method = GET,
      url = STACKOVERFLOW_API @ ''/search/advanced'',
      params = [(''site'', ''stackoverflow''), (''sort'', ''votes''), (''order'', ''desc''),
                (''filter'', DEFAULT_FILTER), (''q'', query)]
               @ (case tgs of None \<Rightarrow> [] | Some ts \<Rightarrow> [(''tagged'', join '';'' ts)])
               @ (if truthy_num (limit options) then [(''pagesize'', template_num (limit options))] else [])
               @ auth_params this\<rparr>"

definition searchStackOverflow ::
  "credentials \<Rightarrow> remote \<Rightarrow> string \<Rightarrow> string list option \<Rightarrow> search_options
    \<Rightarrow> request list world \<Rightarrow> (thrown + SearchResult list) \<times> request list world" where
  "searchStackOverflow this api query tgs options w =
     (case withRateLimit (fetch (questions_api api) (search_request this query tgs options)) 3 w of
           (Inl error, w1) \<Rightarrow> (Inl (rethrow ''Failed to search Stack Overflow: '' error), w1)
         | (Inr response, w1) \<Rightarrow>
             if \<not> ok response then
               (case json response of
                  Inl error \<Rightarrow> (Inl (rethrow ''Failed to search Stack Overflow: '' error), w1)
                | Inr errorData \<Rightarrow> (Inl (api_error ''Stack Overflow API error: '' errorData), w1))
             else
               (case json response of
                  Inl error \<Rightarrow> (Inl (rethrow ''Failed to search Stack Overflow: '' error), w1)
                | Inr data \<Rightarrow>
                    (case items data of
                       None \<Rightarrow> (Inl (rethrow ''Failed to search Stack Overflow: '' not_iterable), w1)
                     | Some qs \<Rightarrow>
                         (case questions_loop this api options qs [] w1 of
                            (Inl error, w2) \<Rightarrow> (Inl (rethrow ''Failed to search Stack Overflow: '' error), w2)
                          | (Inr results, w2) \<Rightarrow> (Inr results, w2)))))"

section \<open>JSON text\<close>

text \<open>
  The values that \<open>JSON.stringify\<close> writes and \<open>JSON.parse\<close> reads. An object is the
  list of its properties. \<open>JSON_stringify\<close> is
  \<open>JSON.stringify(value, null, 2)\<close>: every nested level is indented by two more spaces,
  and an empty array or object is written without a line break.
\<close>

datatype json =
    JNull
  | JBool bool
  | JNumber int
  | JString string
  | JArray "json list"
  | JObject "(string \<times> json) list"

definition hex_digit :: "nat \<Rightarrow> char" where
  "hex_digit n = (if n < 10 then char_of (48 + n) else char_of (87 + n))"

definition quote_char :: "char \<Rightarrow> string" where
  "quote_char c =
     (let n = (of_char c :: nat) in
      if n = 8 then [CHR 0x5C, CHR ''b'']
      else if n = 9 then [CHR 0x5C, CHR ''t'']
      else if n = 10 then [CHR 0x5C, CHR ''n'']
      else if n = 12 then [CHR 0x5C, CHR ''f'']
      else if n = 13 then [CHR 0x5C, CHR ''r'']
      else if n = 34 then [CHR 0x5C, CHR 0x22]
      else if n = 92 then [CHR 0x5C, CHR 0x5C]
      else if n < 32 then [CHR 0x5C, CHR ''u'', CHR ''0'', CHR ''0'', hex_digit (n div 16), hex_digit (n mod 16)]
      else [c])"

definition QuoteJSONString :: "string \<Rightarrow> string" where
  "QuoteJSONString s = CHR 0x22 # concat (map quote_char s) @ [CHR 0x22]"

definition gap :: string where
  "gap = ''  ''"

definition line_break :: string where
  "line_break = [CHR 0x0A]"

fun SerializeJSONProperty :: "string \<Rightarrow> json \<Rightarrow> string" where
  "SerializeJSONProperty indent JNull = ''null''"
| "SerializeJSONProperty indent (JBool b) = (if b then ''true'' else ''false'')"
| "SerializeJSONProperty indent (JNumber n) = toString n"
| "SerializeJSONProperty indent (JString s) = QuoteJSONString s"
| "SerializeJSONProperty indent (JArray xs) =
     (if xs = [] then ''[]''
      else ''['' @ line_break @ (indent @ gap)
           @ join ('','' @ line_break @ (indent @ gap)) (map (SerializeJSONProperty (indent @ gap)) xs)
           @ line_break @ indent @ '']'')"
| "SerializeJSONProperty indent (JObject kvs) =
     (if kvs = [] then ''{}''
      else ''{'' @ line_break @ (indent @ gap)
           @ join ('','' @ line_break @ (indent @ gap))
               (map (\<lambda>(k, v). QuoteJSONString k @ '': '' @ SerializeJSONProperty (indent @ gap) v) kvs)
           @ line_break @ indent @ ''}'')"

definition JSON_stringify :: "json \<Rightarrow> string" where
  "JSON_stringify v = SerializeJSONProperty [] v"

text \<open>
  \<open>JSON_parse\<close> is \<open>JSON.parse\<close> on the values above: white space is allowed around every
  token, a string may use the escapes of JSON, and the properties of an object are created
  in the order of the text (a key that occurs again keeps its place and takes the later
  value). A number with a fraction or an exponent, and an escape for a code unit beyond
  one byte, are outside the values of the model and are refused. The recursion is bounded
  by the length of the text: every nested call comes after at least one character.
\<close>

definition is_ws :: "char \<Rightarrow> bool" where
  "is_ws c \<longleftrightarrow> c = CHR 0x20 \<or> c = CHR 0x09 \<or> c = CHR 0x0A \<or> c = CHR 0x0D"

definition skip_ws :: "string \<Rightarrow> string" where
  "skip_ws s = dropWhile is_ws s"

definition is_digit :: "char \<Rightarrow> bool" where
  "is_digit c \<longleftrightarrow> 48 \<le> (of_char c :: nat) \<and> (of_char c :: nat) \<le> 57"

definition digit_value :: "char \<Rightarrow> nat" where
  "digit_value c = (of_char c :: nat) - 48"

fun read_digits :: "nat \<Rightarrow> string \<Rightarrow> nat \<times> string" where
  "read_digits acc [] = (acc, [])"
| "read_digits acc (c # cs) =
     (if is_digit c then read_digits (10 * acc + digit_value c) cs else (acc, c # cs))"

definition read_natural :: "string \<Rightarrow> (nat \<times> string) option" where
  "read_natural s =
     (case s of
        [] \<Rightarrow> None
      | c # cs \<Rightarrow>
          if c = CHR ''0'' then Some (0, cs)
          else if is_digit c then Some (read_digits 0 s)
          else None)"

definition read_integer :: "string \<Rightarrow> (int \<times> string) option" where
  "read_integer s =
     (case s of
        [] \<Rightarrow> None
      | c # cs \<Rightarrow>
          if c = CHR ''-'' then map_option (\<lambda>(n, rest). (- int n, rest)) (read_natural cs)
          else map_option (\<lambda>(n, rest). (int n, rest)) (read_natural s))"

definition read_number :: "string \<Rightarrow> (int \<times> string) option" where
  "read_number s =
     (case read_integer s of
        None \<Rightarrow> None
      | Some (i, rest) \<Rightarrow>
          (case rest of
             [] \<Rightarrow> Some (i, rest)
           | c # cs \<Rightarrow> if c = CHR ''.'' \<or> c = CHR ''e'' \<or> c = CHR ''E'' then None else Some (i, rest)))"

definition hex_value :: "char \<Rightarrow> nat option" where
  "hex_value c =
     (let n = (of_char c :: nat) in
      if 48 \<le> n \<and> n \<le> 57 then Some (n - 48)
      else if 97 \<le> n \<and> n \<le> 102 then Some (n - 87)
      else if 65 \<le> n \<and> n \<le> 70 then Some (n - 55)
      else None)"

definition unescape :: "char \<Rightarrow> char option" where
  "unescape e =
     (if e = CHR 0x22 \<or> e = CHR 0x5C \<or> e = CHR ''/'' then Some e
      else if e = CHR ''b'' then Some (CHR 0x08)
      else if e = CHR ''f'' then Some (CHR 0x0C)
      else if e = CHR ''n'' then Some (CHR 0x0A)
      else if e = CHR ''r'' then Some (CHR 0x0D)
      else if e = CHR ''t'' then Some (CHR 0x09)
      else None)"

definition code_unit :: "char \<Rightarrow> char \<Rightarrow> char \<Rightarrow> char \<Rightarrow> char option" where
  "code_unit h1 h2 h3 h4 =
     (case (hex_value h1, hex_value h2, hex_value h3, hex_value h4) of
        (Some a, Some b, Some c, Some d) \<Rightarrow>
          (if ((a * 16 + b) * 16 + c) * 16 + d < 256
           then Some (char_of (((a * 16 + b) * 16 + c) * 16 + d)) else None)
      | _ \<Rightarrow> None)"

fun read_chars :: "string \<Rightarrow> (string \<times> string) option" where
  "read_chars [] = None"
| "read_chars (c # cs) =
     (if c = CHR 0x22 then Some ([], cs)
      else if c = CHR 0x5C then
        (case cs of
           [] \<Rightarrow> None
         | e # es \<Rightarrow>
             if e = CHR ''u'' then
               (case es of
                  h1 # h2 # h3 # h4 # rest \<Rightarrow>
                    (case code_unit h1 h2 h3 h4 of
                       None \<Rightarrow> None
                     | Some ch \<Rightarrow> map_option (\<lambda>(s, r). (ch # s, r)) (read_chars rest))
                | _ \<Rightarrow> None)
             else
               (case unescape e of
                  None \<Rightarrow> None
                | Some ch \<Rightarrow> map_option (\<lambda>(s, r). (ch # s, r)) (read_chars es)))
      else if (of_char c :: nat) < 32 then None
      else map_option (\<lambda>(s, r). (c # s, r)) (read_chars cs))"

definition create_properties :: "(string \<times> json) list \<Rightarrow> (string \<times> json) list" where
  "create_properties kvs = foldl (\<lambda>obj (k, v). AList.update k v obj) [] kvs"

fun parse_value :: "nat \<Rightarrow> string \<Rightarrow> (json \<times> string) option"
  and parse_elements :: "nat \<Rightarrow> string \<Rightarrow> (json list \<times> string) option"
  and parse_members :: "nat \<Rightarrow> string \<Rightarrow> ((string \<times> json) list \<times> string) option" where
  "parse_value 0 s = None"
| "parse_value (Suc n) s =
     (case skip_ws s of
        [] \<Rightarrow> None
      | c # cs \<Rightarrow>
          if c = CHR ''['' then
            (if take 1 (skip_ws cs) = '']'' then Some (JArray [], drop 1 (skip_ws cs))
             else map_option (\<lambda>(xs, rest). (JArray xs, rest)) (parse_elements n cs))
          else if c = CHR ''{'' then
            (if take 1 (skip_ws cs) = ''}'' then Some (JObject [], drop 1 (skip_ws cs))
             else map_option (\<lambda>(kvs, rest). (JObject (create_properties kvs), rest)) (parse_members n cs))
          else if c = CHR 0x22 then map_option (\<lambda>(str, rest). (JString str, rest)) (read_chars cs)
          else if take 4 (c # cs) = ''null'' then Some (JNull, drop 4 (c # cs))
          else if take 4 (c # cs) = ''true'' then Some (JBool True, drop 4 (c # cs))
          else if take 5 (c # cs) = ''false'' then Some (JBool False, drop 5 (c # cs))
          else map_option (\<lambda>(i, rest). (JNumber i, rest)) (read_number (c # cs)))"
| "parse_elements 0 s = None"
| "parse_elements (Suc n) s =
     (case parse_value n s of
        None \<Rightarrow> None
      | Some (x, rest) \<Rightarrow>
          (case skip_ws rest of
             [] \<Rightarrow> None
           | c # cs \<Rightarrow>
               if c = CHR '','' then map_option (\<lambda>(xs, r). (x # xs, r)) (parse_elements n cs)
               else if c = CHR '']'' then Some ([x], cs)
               else None))"
| "parse_members 0 s = None"
| "parse_members (Suc n) s =
     (case skip_ws s of
        [] \<Rightarrow> None
      | c # cs \<Rightarrow>
          if c = CHR 0x22 then
            (case read_chars cs of
               None \<Rightarrow> None
             | Some (k, rest) \<Rightarrow>
                 (case skip_ws rest of
                    [] \<Rightarrow> None
                  | c2 # cs2 \<Rightarrow>
                      if c2 = CHR '':'' then
                        (case parse_value n cs2 of
                           None \<Rightarrow> None
                         | Some (v, rest2) \<Rightarrow>
                             (case skip_ws rest2 of
                                [] \<Rightarrow> None
                              | c3 # cs3 \<Rightarrow>
                                  if c3 = CHR '','' then
                                    map_option (\<lambda>(kvs, r). ((k, v) # kvs, r)) (parse_members n cs3)
                                  else if c3 = CHR ''}'' then Some ([(k, v)], cs3)
                                  else None))
                      else None))
          else None)"

definition JSON_parse :: "string \<Rightarrow> json option" where
  "JSON_parse text =
     (case parse_value (length text) text of
        None \<Rightarrow> None
      | Some (v, rest) \<Rightarrow> if skip_ws rest = [] then Some v else None)"

text \<open>
  What follows a serialized value inside the text that \<open>JSON_stringify\<close> writes is the
  end of the text, a comma or a line break. A value is proper when each of its objects
  has one property per key. \<open>need\<close> bounds the calls that reading a value back takes, and
  \<open>opens_value\<close> holds of a text whose first character can start a value.
\<close>

definition delimited :: "string \<Rightarrow> bool" where
  "delimited rest \<longleftrightarrow> (case rest of [] \<Rightarrow> True | c # cs \<Rightarrow> c = CHR '','' \<or> c = CHR 0x0A)"

fun proper :: "json \<Rightarrow> bool" where
  "proper (JArray xs) = list_all proper xs"
| "proper (JObject kvs) = (distinct (map fst kvs) \<and> list_all (\<lambda>kv. proper (snd kv)) kvs)"
| "proper v = True"

fun need :: "json \<Rightarrow> nat" where
  "need (JArray xs) = Suc (sum_list (map (\<lambda>x. Suc (need x)) xs))"
| "need (JObject kvs) = Suc (sum_list (map (\<lambda>kv. Suc (need (snd kv))) kvs))"
| "need v = 1"

definition opens_value :: "string \<Rightarrow> bool" where
  "opens_value s \<longleftrightarrow>
     (case s of [] \<Rightarrow> False
      | c # cs \<Rightarrow> \<not> is_ws c \<and> c \<noteq> CHR '']'' \<and> c \<noteq> CHR ''}'' \<and> c \<noteq> CHR '','')"

text \<open>
  The values of the data model as JSON values. A property whose value is \<open>undefined\<close> is
  left out. The properties of a record are enumerated in the order of the interface. The
  keys of the dictionary of answer comments are the decimal renderings of the identifiers,
  enumerated as the host enumerates the properties of an object: the array indices in
  ascending order first, then the other keys in the order of their creation.
\<close>

definition optional_property :: "string \<Rightarrow> ('a \<Rightarrow> json) \<Rightarrow> 'a option \<Rightarrow> (string \<times> json) list" where
  "optional_property k enc x = (case x of None \<Rightarrow> [] | Some v \<Rightarrow> [(k, enc v)])"

definition json_of_question :: "StackOverflowQuestion \<Rightarrow> json" where
  "json_of_question q =
     JObject ([(''question_id'', JNumber (StackOverflowQuestion.question_id q)),
               (''title'', JString (title q)),
               (''body'', JString (StackOverflowQuestion.body q)),
               (''score'', JNumber (StackOverflowQuestion.score q)),
               (''answer_count'', JNumber (answer_count q)),
               (''is_answered'', JBool (is_answered q))]
              @ optional_property ''accepted_answer_id'' JNumber (accepted_answer_id q)
              @ [(''creation_date'', JNumber (StackOverflowQuestion.creation_date q)),
                 (''tags'', JArray (map JString (tags q))),
                 (''link'', JString (StackOverflowQuestion.link q))])"

definition json_of_answer :: "StackOverflowAnswer \<Rightarrow> json" where
  "json_of_answer a =
     JObject (optional_property ''answer_id'' JNumber (answer_id a)
              @ [(''question_id'', JNumber (StackOverflowAnswer.question_id a)),
                 (''score'', JNumber (StackOverflowAnswer.score a)),
                 (''is_accepted'', JBool (is_accepted a)),
                 (''body'', JString (StackOverflowAnswer.body a)),
                 (''creation_date'', JNumber (StackOverflowAnswer.creation_date a)),
                 (''link'', JString (StackOverflowAnswer.link a))])"

definition json_of_comment :: "StackOverflowComment \<Rightarrow> json" where
  "json_of_comment c =
     JObject [(''comment_id'', JNumber (comment_id c)),
              (''post_id'', JNumber (post_id c)),
              (''score'', JNumber (StackOverflowComment.score c)),
              (''body'', JString (StackOverflowComment.body c)),
              (''creation_date'', JNumber (StackOverflowComment.creation_date c))]"

definition is_array_index :: "int \<Rightarrow> bool" where
  "is_array_index k \<longleftrightarrow> 0 \<le> k \<and> k < 4294967295"

definition own_property_order :: "(int \<times> 'a) list \<Rightarrow> (int \<times> 'a) list" where
  "own_property_order m =
     sort_key fst (filter (\<lambda>kv. is_array_index (fst kv)) m) @ filter (\<lambda>kv. \<not> is_array_index (fst kv)) m"

definition json_of_comments :: "SearchResultComments \<Rightarrow> json" where
  "json_of_comments c =
     JObject [(''question'', JArray (map json_of_comment (SearchResultComments.question c))),
              (''answers'', JObject (map (\<lambda>(k, cs). (toString k, JArray (map json_of_comment cs)))
                                       (own_property_order (SearchResultComments.answers c))))]"

definition json_of_result :: "SearchResult \<Rightarrow> json" where
  "json_of_result r =
     JObject ([(''question'', json_of_question (SearchResult.question r)),
               (''answers'', JArray (map json_of_answer (SearchResult.answers r)))]
              @ optional_property ''comments'' json_of_comments (comments r))"

section \<open>Response formatter\<close>

datatype response_format = Json | Markdown

text \<open>The marker of an accepted answer, byte for byte as the source file has it.\<close>

definition accepted_marker :: string where
  "accepted_marker = [CHR 0xC3, CHR 0xA2, CHR 0xC5, CHR 0x93, CHR 0xE2, CHR 0x80, CHR 0x9C, CHR 0x20]"

definition markdown_comment :: "StackOverflowComment \<Rightarrow> string" where
  "markdown_comment c =
     ''- '' @ StackOverflowComment.body c @ '' *(Score: '' @ toString (StackOverflowComment.score c) @ '')*'' @ line_break"

definition markdown_answer :: "SearchResultComments option \<Rightarrow> StackOverflowAnswer \<Rightarrow> string" where
  "markdown_answer cs a =
     ''### '' @ (if is_accepted a then accepted_marker else []) @ ''Answer (Score: ''
       @ toString (StackOverflowAnswer.score a) @ '')'' @ line_break @ line_break
     @ StackOverflowAnswer.body a @ line_break @ line_break
     @ (case cs of
          None \<Rightarrow> []
        | Some c \<Rightarrow>
            (case answer_id a of
               None \<Rightarrow> []
             | Some aid \<Rightarrow>
                 (case map_of (SearchResultComments.answers c) aid of
                    None \<Rightarrow> []
                  | Some acs \<Rightarrow>
                      ''#### Answer Comments'' @ line_break @ line_break
                      @ concat (map markdown_comment acs) @ line_break)))"

definition markdown_result :: "SearchResult \<Rightarrow> string" where
  "markdown_result r =
     ''# '' @ title (SearchResult.question r) @ line_break @ line_break
     @ ''**Score:** '' @ toString (StackOverflowQuestion.score (SearchResult.question r))
     @ '' | **Answers:** '' @ toString (answer_count (SearchResult.question r)) @ line_break @ line_break
     @ ''## Question'' @ line_break @ line_break
     @ StackOverflowQuestion.body (SearchResult.question r) @ line_break @ line_break
     @ (case comments r of
          None \<Rightarrow> []
        | Some c \<Rightarrow>
            ''### Question Comments'' @ line_break @ line_break
            @ concat (map markdown_comment (SearchResultComments.question c)) @ line_break)
     @ ''## Answers'' @ line_break @ line_break
     @ concat (map (markdown_answer (comments r)) (SearchResult.answers r))
     @ ''---'' @ line_break @ line_break
     @ ''[View on Stack Overflow]('' @ StackOverflowQuestion.link (SearchResult.question r) @ '')''
     @ line_break @ line_break"

definition formatResponse :: "SearchResult list \<Rightarrow> response_format option \<Rightarrow> string" where
  "formatResponse results fmt =
     (if (case fmt of None \<Rightarrow> Json | Some f \<Rightarrow> f) = Json
      then JSON_stringify (JArray (map json_of_result results))
      else join (line_break @ line_break) (map markdown_result results))"

section \<open>Write policy gate\<close>

record PostQuestionInput =
  title :: string
  body :: string
  tags :: "string list"
  errorSignature :: string
  triedApproaches :: "string list"

text \<open>
  The handlers of \<open>post_solution\<close> and \<open>thumbs_up\<close> test the confirmation flag and the
  evidence themselves, so these may be absent when the handler runs.
\<close>

record PostSolutionInput =
  questionId :: int
  body :: string
  confirmedResolved :: "bool option"
  evidence :: "string list option"

record ThumbsUpInput =
  postId :: int
  confirmedFixed :: "bool option"

record CommentSolutionInput =
  questionId :: int
  body :: string

definition configuration_error :: thrown where
  "configuration_error =
     McpError InvalidRequest
       ''Write operations require STACKOVERFLOW_API_KEY and STACKOVERFLOW_ACCESS_TOKEN''"

definition ensureWriteAccess :: "credentials \<Rightarrow> thrown option" where
  "ensureWriteAccess this =
     (if \<not> truthy_str (apiKey this) \<or> \<not> truthy_str (accessToken this)
      then Some configuration_error
      else None)"

text \<open>\<open>data.items && data.items[0]\<close>\<close>

definition first_item :: "'a api_payload \<Rightarrow> 'a option" where
  "first_item data = (case items data of None \<Rightarrow> None | Some [] \<Rightarrow> None | Some (x # xs) \<Rightarrow> Some x)"

definition post_question_request :: "credentials \<Rightarrow> PostQuestionInput \<Rightarrow> request" where
  "post_question_request this input =
     \<lparr>http_method = POST,
      url = STACKOVERFLOW_API @ ''/questions/add'',
      params = [(''site'', ''stackoverflow''), (''title'', PostQuestionInput.title input),
                (''body'', PostQuestionInput.body input),
                (''tags'', join '';'' (PostQuestionInput.tags input)),
                (''key'', template_str (apiKey this)),
                (''access_token'', template_str (accessToken this))]\<rparr>"

definition handlePostQuestion ::
  "credentials \<Rightarrow> remote \<Rightarrow> PostQuestionInput \<Rightarrow> request list world \<Rightarrow> (thrown + string) \<times> request list world" where
  "handlePostQuestion this api input w =
     (case searchStackOverflow this api (errorSignature input) (Some (PostQuestionInput.tags input))
             \<lparr>minScore = Some 0, limit = Some 3, includeComments = Some False\<rparr> w of
        (Inl error, w1) \<Rightarrow> (Inl error, w1)
      | (Inr similar, w1) \<Rightarrow>
          if length similar > 0 then
            (Inl (McpError InvalidRequest
                   ''Refusing to post: similar questions already exist for the provided errorSignature''), w1)
          else
            (case ensureWriteAccess this of
               Some error \<Rightarrow> (Inl error, w1)
             | None \<Rightarrow>
                 (case withRateLimit (fetch (questions_api api) (post_question_request this input)) 3 w1 of
                    (Inl error, w2) \<Rightarrow> (Inl error, w2)
                  | (Inr response, w2) \<Rightarrow>
                      if \<not> ok response then
                        (case json response of
                           Inl error \<Rightarrow> (Inl error, w2)
                         | Inr errorData \<Rightarrow> (Inl (api_error ''Failed to post question: '' errorData), w2))
                      else
                        (case json response of
                           Inl error \<Rightarrow> (Inl error, w2)
                         | Inr data \<Rightarrow>
                             (Inr (JSON_stringify (JObject
                                    ([(''message'', JString ''Question posted successfully'')]
                                     @ optional_property ''id'' JNumber
                                         (map_option StackOverflowQuestion.question_id (first_item data))
                                     @ optional_property ''link'' JString
                                         (map_option StackOverflowQuestion.link (first_item data))
                                     @ [(''triedApproaches'', JArray (map JString (triedApproaches input)))]))),
                              w2)))))"

definition post_solution_request :: "credentials \<Rightarrow> PostSolutionInput \<Rightarrow> request" where
  "post_solution_request this input =
     \<lparr>http_method = POST,
      url = STACKOVERFLOW_API @ ''/questions/'' @ toString (PostSolutionInput.questionId input) @ ''/answers/add'',
      params = [(''site'', ''stackoverflow''), (''body'', PostSolutionInput.body input),
                (''key'', template_str (apiKey this)),
                (''access_token'', template_str (accessToken this))]\<rparr>"

definition handlePostSolution ::
  "credentials \<Rightarrow> remote \<Rightarrow> PostSolutionInput \<Rightarrow> request list world \<Rightarrow> (thrown + string) \<times> request list world" where
  "handlePostSolution this api input w =
     (if \<not> truthy_bool (confirmedResolved input) then
        (Inl (McpError InvalidRequest ''Refusing to post: confirmedResolved must be true''), w)
      else if (case evidence input of None \<Rightarrow> True | Some ev \<Rightarrow> length ev = 0) then
        (Inl (McpError InvalidParams ''Refusing to post: evidence is required''), w)
      else
        (case fetchQuestion this api (PostSolutionInput.questionId input) w of
           (Inl error, w1) \<Rightarrow> (Inl error, w1)
         | (Inr None, w1) \<Rightarrow> (Inl (McpError InvalidRequest ''Question not found''), w1)
         | (Inr (Some q), w1) \<Rightarrow>
             if truthy_num (accepted_answer_id q) \<or> answer_count q > 0 then
               (Inl (McpError InvalidRequest
                      ''Refusing to post: the question already has answers (or an accepted one)''), w1)
             else
               (case ensureWriteAccess this of
                  Some error \<Rightarrow> (Inl error, w1)
                | None \<Rightarrow>
                    (case withRateLimit (fetch (answers_api api) (post_solution_request this input)) 3 w1 of
                       (Inl error, w2) \<Rightarrow> (Inl error, w2)
                     | (Inr response, w2) \<Rightarrow>
                         if \<not> ok response then
                           (case json response of
                              Inl error \<Rightarrow> (Inl error, w2)
                            | Inr errorData \<Rightarrow> (Inl (api_error ''Failed to post answer: '' errorData), w2))
                         else
                           (case json response of
                              Inl error \<Rightarrow> (Inl error, w2)
                            | Inr data \<Rightarrow>
                                (Inr (JSON_stringify (JObject
                                       ([(''message'', JString ''Answer posted successfully'')]
                                        @ optional_property ''id'' JNumber
                                            (case first_item data of None \<Rightarrow> None | Some a \<Rightarrow> answer_id a)
                                        @ optional_property ''link'' JString
                                            (map_option StackOverflowAnswer.link (first_item data))
                                        @ optional_property ''evidence'' (\<lambda>ev. JArray (map JString ev))
                                            (evidence input)))),
                                 w2))))))"

definition thumbs_up_request :: "credentials \<Rightarrow> ThumbsUpInput \<Rightarrow> request" where
  "thumbs_up_request this input =
     \<lparr>http_method = POST,
      url = STACKOVERFLOW_API @ ''/posts/'' @ toString (postId input) @ ''/upvote'',
      params = [(''site'', ''stackoverflow''),
                (''key'', template_str (apiKey this)),
                (''access_token'', template_str (accessToken this))]\<rparr>"

definition handleThumbsUp ::
  "credentials \<Rightarrow> remote \<Rightarrow> ThumbsUpInput \<Rightarrow> request list world \<Rightarrow> (thrown + string) \<times> request list world" where
  "handleThumbsUp this api input w =
     (if \<not> truthy_bool (confirmedFixed input) then
        (Inl (McpError InvalidRequest ''Refusing to upvote: confirmedFixed must be true''), w)
      else
        (case ensureWriteAccess this of
           Some error \<Rightarrow> (Inl error, w)
         | None \<Rightarrow>
             (case withRateLimit (fetch (votes_api api) (thumbs_up_request this input)) 3 w of
                (Inl error, w1) \<Rightarrow> (Inl error, w1)
              | (Inr response, w1) \<Rightarrow>
                  if \<not> ok response then
                    (case json response of
                       Inl error \<Rightarrow> (Inl error, w1)
                     | Inr errorData \<Rightarrow> (Inl (api_error ''Failed to upvote: '' errorData), w1))
                  else (Inr ''Upvote submitted successfully'', w1))))"

definition comment_solution_request :: "credentials \<Rightarrow> CommentSolutionInput \<Rightarrow> request" where
  "comment_solution_request this input =
     \<lparr>http_method = POST,
      url = STACKOVERFLOW_API @ ''/posts/'' @ toString (CommentSolutionInput.questionId input) @ ''/comments/add'',
      params = [(''site'', ''stackoverflow''), (''body'', CommentSolutionInput.body input),
                (''key'', template_str (apiKey this)),
                (''access_token'', template_str (accessToken this))]\<rparr>"

definition handleCommentSolution ::
  "credentials \<Rightarrow> remote \<Rightarrow> CommentSolutionInput \<Rightarrow> request list world \<Rightarrow> (thrown + string) \<times> request list world" where
  "handleCommentSolution this api input w =
     (case fetchQuestion this api (CommentSolutionInput.questionId input) w of
        (Inl error, w1) \<Rightarrow> (Inl error, w1)
      | (Inr None, w1) \<Rightarrow> (Inl (McpError InvalidRequest ''Question not found''), w1)
      | (Inr (Some q), w1) \<Rightarrow>
          if truthy_num (accepted_answer_id q) then
            (Inl (McpError InvalidRequest
                   ''Refusing to comment: question already has an accepted answer''), w1)
          else
            (case ensureWriteAccess this of
               Some error \<Rightarrow> (Inl error, w1)
             | None \<Rightarrow>
                 (case withRateLimit (fetch (comments_api api) (comment_solution_request this input)) 3 w1 of
                    (Inl error, w2) \<Rightarrow> (Inl error, w2)
                  | (Inr response, w2) \<Rightarrow>
                      if \<not> ok response then
                        (case json response of
                           Inl error \<Rightarrow> (Inl error, w2)
                         | Inr errorData \<Rightarrow> (Inl (api_error ''Failed to post comment: '' errorData), w2))
                      else
                        (case json response of
                           Inl error \<Rightarrow> (Inl error, w2)
                         | Inr data \<Rightarrow>
                             (Inr (JSON_stringify (JObject
                                    ([(''message'', JString ''Comment posted successfully'')]
                                     @ optional_property ''id'' JNumber
                                         (map_option comment_id (first_item data))))),
                              w2)))))"

section \<open>Search tools\<close>

record SearchByErrorInput =
  errorMessage :: string
  language :: "string option"
  technologies :: "string list option"
  minScore :: "int option"
  includeComments :: "bool option"
  responseFormat :: "response_format option"
  limit :: "int option"

record SearchByTagsInput =
  tags :: "string list"
  minScore :: "int option"
  includeComments :: "bool option"
  responseFormat :: "response_format option"
  limit :: "int option"

record StackTraceInput =
  stackTrace :: string
  language :: string
  includeComments :: "bool option"
  responseFormat :: "response_format option"
  limit :: "int option"

text \<open>
  \<open>toLowerCase\<close> on the letters of ASCII; the bytes of other characters are kept, where
  the host also maps the capital letters outside ASCII. Only the tag that the search by
  error derives from the language goes through it.
\<close>

definition toLowerCase :: "string \<Rightarrow> string" where
  "toLowerCase s =
     map (\<lambda>c. if 65 \<le> (of_char c :: nat) \<and> (of_char c :: nat) \<le> 90 then char_of ((of_char c :: nat) + 32) else c) s"

definition handleSearchByError ::
  "credentials \<Rightarrow> remote \<Rightarrow> SearchByErrorInput \<Rightarrow> request list world \<Rightarrow> (thrown + string) \<times> request list world" where
  "handleSearchByError this api args w =
     (let tgs = (if truthy_str (SearchByErrorInput.language args)
                 then [toLowerCase (template_str (SearchByErrorInput.language args))] else [])
                @ (case technologies args of None \<Rightarrow> [] | Some ts \<Rightarrow> ts)
      in case searchStackOverflow this api (errorMessage args) (if length tgs > 0 then Some tgs else None)
                \<lparr>search_options.minScore = SearchByErrorInput.minScore args,
                 search_options.limit = SearchByErrorInput.limit args,
                 search_options.includeComments = SearchByErrorInput.includeComments args\<rparr> w of
           (Inl error, w1) \<Rightarrow> (Inl error, w1)
         | (Inr results, w1) \<Rightarrow> (Inr (formatResponse results (SearchByErrorInput.responseFormat args)), w1))"

definition tags_request :: "credentials \<Rightarrow> SearchByTagsInput \<Rightarrow> request" where
  "tags_request this args =
     \<lparr>http_method = GET,
      url = STACKOVERFLOW_API @ ''/questions'',
      params = [(''site'', ''stackoverflow''), (''sort'', ''votes''), (''order'', ''desc''),
                (''filter'', ''!nKzQUR30W7''), (''tagged'', join '';'' (SearchByTagsInput.tags args))]
               @ (if truthy_num (SearchByTagsInput.limit args)
                  then [(''pagesize'', template_num (SearchByTagsInput.limit args))] else [])
               @ auth_params this\<rparr>"

text \<open>
  \<open>handleSearchByTags\<close> has its own copy of the loop of \<open>searchStackOverflow\<close>, with the
  arguments of the tool in the place of the options.
\<close>

definition handleSearchByTags ::
  "credentials \<Rightarrow> remote \<Rightarrow> SearchByTagsInput \<Rightarrow> request list world \<Rightarrow> (thrown + string) \<times> request list world" where
  "handleSearchByTags this api args w =
     (case withRateLimit (fetch (questions_api api) (tags_request this args)) 3 w of
        (Inl error, w1) \<Rightarrow> (Inl (rethrow ''Failed to search Stack Overflow: '' error), w1)
      | (Inr response, w1) \<Rightarrow>
          if \<not> ok response then
            (case json response of
               Inl error \<Rightarrow> (Inl (rethrow ''Failed to search Stack Overflow: '' error), w1)
             | Inr errorData \<Rightarrow> (Inl (api_error ''Stack Overflow API error: '' errorData), w1))
          else
            (case json response of
               Inl error \<Rightarrow> (Inl (rethrow ''Failed to search Stack Overflow: '' error), w1)
             | Inr data \<Rightarrow>
                 (case items data of
                    None \<Rightarrow> (Inl (rethrow ''Failed to search Stack Overflow: '' not_iterable), w1)
                  | Some qs \<Rightarrow>
                      (case questions_loop this api
                              \<lparr>search_options.minScore = SearchByTagsInput.minScore args,
                               search_options.limit = SearchByTagsInput.limit args,
                               search_options.includeComments = SearchByTagsInput.includeComments args\<rparr>
                              qs [] w1 of
                         (Inl error, w2) \<Rightarrow> (Inl (rethrow ''Failed to search Stack Overflow: '' error), w2)
                       | (Inr results, w2) \<Rightarrow>
                           (Inr (formatResponse results (SearchByTagsInput.responseFormat args)), w2)))))"

text \<open>The first line of the stack trace: \<open>split("\n")[0]\<close>.\<close>

definition first_line :: "string \<Rightarrow> string" where
  "first_line s = takeWhile (\<lambda>c. c \<noteq> CHR 0x0A) s"

definition handleAnalyzeStackTrace ::
  "credentials \<Rightarrow> remote \<Rightarrow> StackTraceInput \<Rightarrow> request list world \<Rightarrow> (thrown + string) \<times> request list world" where
  "handleAnalyzeStackTrace this api args w =
     (case searchStackOverflow this api (first_line (stackTrace args))
             (Some [toLowerCase (StackTraceInput.language args)])
             \<lparr>search_options.minScore = Some 0,
              search_options.limit = StackTraceInput.limit args,
              search_options.includeComments = StackTraceInput.includeComments args\<rparr> w of
        (Inl error, w1) \<Rightarrow> (Inl error, w1)
      | (Inr results, w1) \<Rightarrow> (Inr (formatResponse results (StackTraceInput.responseFormat args)), w1))"

section \<open>Tool dispatcher\<close>

text \<open>
  The arguments of a tool call are an object of any shape: every property of every tool
  may be present or absent. The dispatcher tests the required ones for truthiness and
  hands the object to the handler of the named tool.
\<close>

record tool_arguments =
  errorMessage :: "string option"
  language :: "string option"
  technologies :: "string list option"
  minScore :: "int option"
  includeComments :: "bool option"
  responseFormat :: "response_format option"
  limit :: "int option"
  tags :: "string list option"
  stackTrace :: "string option"
  title :: "string option"
  body :: "string option"
  errorSignature :: "string option"
  triedApproaches :: "string list option"
  questionId :: "int option"
  confirmedResolved :: "bool option"
  evidence :: "string list option"
  postId :: "int option"
  confirmedFixed :: "bool option"

definition callTool ::
  "credentials \<Rightarrow> remote \<Rightarrow> string \<Rightarrow> tool_arguments option \<Rightarrow> request list world
    \<Rightarrow> (thrown + string) \<times> request list world" where
  "callTool this api name arguments w =
     (case arguments of
        None \<Rightarrow> (Inl (McpError InvalidParams ''Arguments are required''), w)
      | Some args \<Rightarrow>
          if name = ''search_by_error'' then
            (if \<not> truthy_str (tool_arguments.errorMessage args)
             then (Inl (McpError InvalidParams ''errorMessage is required''), w)
             else handleSearchByError this api
                    \<lparr>SearchByErrorInput.errorMessage = template_str (tool_arguments.errorMessage args),
                     SearchByErrorInput.language = tool_arguments.language args,
                     SearchByErrorInput.technologies = tool_arguments.technologies args,
                     SearchByErrorInput.minScore = tool_arguments.minScore args,
                     SearchByErrorInput.includeComments = tool_arguments.includeComments args,
                     SearchByErrorInput.responseFormat = tool_arguments.responseFormat args,
                     SearchByErrorInput.limit = tool_arguments.limit args\<rparr> w)
          else if name = ''search_by_tags'' then
            (case tool_arguments.tags args of
               None \<Rightarrow> (Inl (McpError InvalidParams ''tags are required''), w)
             | Some tgs \<Rightarrow>
                 handleSearchByTags this api
                   \<lparr>SearchByTagsInput.tags = tgs,
                    SearchByTagsInput.minScore = tool_arguments.minScore args,
                    SearchByTagsInput.includeComments = tool_arguments.includeComments args,
                    SearchByTagsInput.responseFormat = tool_arguments.responseFormat args,
                    SearchByTagsInput.limit = tool_arguments.limit args\<rparr> w)
          else if name = ''analyze_stack_trace'' then
            (if \<not> truthy_str (tool_arguments.stackTrace args) \<or> \<not> truthy_str (tool_arguments.language args)
             then (Inl (McpError InvalidParams ''stackTrace and language are required''), w)
             else handleAnalyzeStackTrace this api
                    \<lparr>StackTraceInput.stackTrace = template_str (tool_arguments.stackTrace args),
                     StackTraceInput.language = template_str (tool_arguments.language args),
                     StackTraceInput.includeComments = tool_arguments.includeComments args,
                     StackTraceInput.responseFormat = tool_arguments.responseFormat args,
                     StackTraceInput.limit = tool_arguments.limit args\<rparr> w)
          else if name = ''post_question'' then
            (if \<not> truthy_str (tool_arguments.title args) \<or> \<not> truthy_str (tool_arguments.body args)
                \<or> \<not> truthy_str (tool_arguments.errorSignature args)
                \<or> \<not> truthy_arr (tool_arguments.tags args)
                \<or> \<not> truthy_arr (tool_arguments.triedApproaches args)
             then (Inl (McpError InvalidParams
                         ''title, body, tags, errorSignature, triedApproaches are required''), w)
             else if length (the (tool_arguments.triedApproaches args)) < 3
             then (Inl (McpError InvalidParams ''At least 3 triedApproaches are required''), w)
             else handlePostQuestion this api
                    \<lparr>PostQuestionInput.title = template_str (tool_arguments.title args),
                     PostQuestionInput.body = template_str (tool_arguments.body args),
                     PostQuestionInput.tags = the (tool_arguments.tags args),
                     PostQuestionInput.errorSignature = template_str (tool_arguments.errorSignature args),
                     PostQuestionInput.triedApproaches = the (tool_arguments.triedApproaches args)\<rparr> w)
          else if name = ''post_solution'' then
            (if \<not> truthy_num (tool_arguments.questionId args) \<or> \<not> truthy_str (tool_arguments.body args)
             then (Inl (McpError InvalidParams ''questionId and body are required''), w)
             else handlePostSolution this api
                    \<lparr>PostSolutionInput.questionId = the (tool_arguments.questionId args),
                     PostSolutionInput.body = template_str (tool_arguments.body args),
                     PostSolutionInput.confirmedResolved = tool_arguments.confirmedResolved args,
                     PostSolutionInput.evidence = tool_arguments.evidence args\<rparr> w)
          else if name = ''thumbs_up'' then
            (if \<not> truthy_num (tool_arguments.postId args)
             then (Inl (McpError InvalidParams ''postId is required''), w)
             else handleThumbsUp this api
                    \<lparr>ThumbsUpInput.postId = the (tool_arguments.postId args),
                     ThumbsUpInput.confirmedFixed = tool_arguments.confirmedFixed args\<rparr> w)
          else if name = ''comment_solution'' then
            (if \<not> truthy_num (tool_arguments.questionId args) \<or> \<not> truthy_str (tool_arguments.body args)
             then (Inl (McpError InvalidParams ''questionId and body are required''), w)
             else handleCommentSolution this api
                    \<lparr>CommentSolutionInput.questionId = the (tool_arguments.questionId args),
                     CommentSolutionInput.body = template_str (tool_arguments.body args)\<rparr> w)
          else (Inl (McpError MethodNotFound (''Unknown tool: '' @ name)), w))"

section \<open>Test doubles\<close>

text \<open>
  A configuration without credentials and one with both, a fresh state, a remote service
  that answers every request with the same items, and sample items.
\<close>

definition no_credentials :: credentials where
  "no_credentials = \<lparr>apiKey = None, accessToken = None\<rparr>"

definition full_credentials :: credentials where
  "full_credentials = \<lparr>apiKey = Some ''key'', accessToken = Some ''token''\<rparr>"

definition idle_world :: "request list world" where
  "idle_world = \<lparr>now = 0, requestTimestamps = [], net = []\<rparr>"

definition ok_response :: "'a list option \<Rightarrow> 'a response" where
  "ok_response xs =
     \<lparr>ok = True, json = Inr \<lparr>items = xs, error_id = None, error_name = None, error_message = None\<rparr>\<rparr>"

definition canned_remote ::
  "StackOverflowQuestion list option \<Rightarrow> StackOverflowAnswer list option \<Rightarrow> StackOverflowComment list option \<Rightarrow> remote" where
  "canned_remote qs ans cs =
     \<lparr>questions_api = (\<lambda>sent req. (Inr (ok_response qs), 40)),
      answers_api = (\<lambda>sent req. (Inr (ok_response ans), 40)),
      comments_api = (\<lambda>sent req. (Inr (ok_response cs), 40)),
      votes_api = (\<lambda>sent req. (Inr (ok_response (Some [])), 40))\<rparr>"

definition sample_question :: "int \<Rightarrow> int \<Rightarrow> StackOverflowQuestion" where
  "sample_question qid sc =
     \<lparr>StackOverflowQuestion.question_id = qid, StackOverflowQuestion.title = ''How to test?'',
      StackOverflowQuestion.body = ''It fails.'', StackOverflowQuestion.score = sc,
      answer_count = 0, is_answered = False, accepted_answer_id = None,
      StackOverflowQuestion.creation_date = 1700000000, StackOverflowQuestion.tags = [''jest''],
      StackOverflowQuestion.link = ''https://stackoverflow.com/q/1''\<rparr>"

definition sample_answer :: "int \<Rightarrow> StackOverflowAnswer" where
  "sample_answer aid =
     \<lparr>answer_id = Some aid, StackOverflowAnswer.question_id = 1, StackOverflowAnswer.score = 5,
      is_accepted = True, StackOverflowAnswer.body = ''Mock it.'',
      StackOverflowAnswer.creation_date = 1700000100,
      StackOverflowAnswer.link = ''https://stackoverflow.com/a/2''\<rparr>"

definition sample_comment :: StackOverflowComment where
  "sample_comment =
     \<lparr>comment_id = 3, post_id = 1, StackOverflowComment.score = 1,
      StackOverflowComment.body = ''Thanks!'', StackOverflowComment.creation_date = 1700000200\<rparr>"

definition comments_on :: search_options where
  "comments_on = \<lparr>search_options.minScore = None, search_options.limit = None, search_options.includeComments = Some True\<rparr>"

definition sample_result :: "StackOverflowQuestion \<Rightarrow> StackOverflowComment list \<Rightarrow> SearchResult" where
  "sample_result q cs =
     \<lparr>SearchResult.question = q, SearchResult.answers = [sample_answer 11, sample_answer 12],
      comments = Some \<lparr>SearchResultComments.question = cs,
                       SearchResultComments.answers = [(11, cs), (12, cs)]\<rparr>\<rparr>"

definition no_arguments :: tool_arguments where
  "no_arguments =
     \<lparr>errorMessage = None, language = None, technologies = None, minScore = None,
      includeComments = None, responseFormat = None, limit = None, tags = None,
      stackTrace = None, title = None, body = None, errorSignature = None,
      triedApproaches = None, questionId = None, confirmedResolved = None, evidence = None,
      postId = None, confirmedFixed = None\<rparr>"

definition sample_post :: "string list \<Rightarrow> PostQuestionInput" where
  "sample_post approaches =
     \<lparr>PostQuestionInput.title = ''How to test?'', PostQuestionInput.body = ''It fails.'',
      PostQuestionInput.tags = [''jest''], PostQuestionInput.errorSignature = ''TypeError: x is undefined'',
      PostQuestionInput.triedApproaches = approaches\<rparr>"

definition sample_solution :: "bool option \<Rightarrow> string list option \<Rightarrow> PostSolutionInput" where
  "sample_solution confirmed ev =
     \<lparr>PostSolutionInput.questionId = 1, PostSolutionInput.body = ''Mock it.'',
      PostSolutionInput.confirmedResolved = confirmed, PostSolutionInput.evidence = ev\<rparr>"

definition sample_upvote :: ThumbsUpInput where
  "sample_upvote = \<lparr>ThumbsUpInput.postId = 11, ThumbsUpInput.confirmedFixed = Some True\<rparr>"

definition sample_remark :: CommentSolutionInput where
  "sample_remark = \<lparr>CommentSolutionInput.questionId = 1, CommentSolutionInput.body = ''Any progress?''\<rparr>"

definition quiet_remote :: remote where
  "quiet_remote = canned_remote (Some []) (Some []) (Some [])"

definition busy_remote :: remote where
  "busy_remote = canned_remote (Some [sample_question 1 4]) (Some []) (Some [])"

definition answered_remote :: remote where
  "answered_remote = canned_remote (Some [(sample_question 1 4)\<lparr>answer_count := 2\<rparr>]) (Some []) (Some [])"

text \<open>
  A service that refuses the first two requests with status 429 and then answers with an
  \<open>ok\<close> response without items, and one whose question carries the accepted answer
  identifier 0 and no answer count.
\<close>

definition retried_remote :: remote where
  "retried_remote =
     \<lparr>questions_api = (\<lambda>sent req. (Inr (ok_response None), 40)),
      answers_api = (\<lambda>sent req. if length sent < 2
                        then (Inl (JsError ''Request failed with status 429'' None), 40)
                        else (Inr (ok_response None), 40)),
      comments_api = (\<lambda>sent req. if length sent < 2
                        then (Inl (JsObject (Some 429)), 40)
                        else (Inr (ok_response None), 40)),
      votes_api = (\<lambda>sent req. (Inr (ok_response (Some [])), 40))\<rparr>"


definition post_arguments :: "string list \<Rightarrow> tool_arguments" where
  "post_arguments approaches =
     no_arguments\<lparr>tool_arguments.title := Some ''How to test?'', tool_arguments.body := Some ''It fails.'',
       tool_arguments.tags := Some [''jest''],
       tool_arguments.errorSignature := Some ''TypeError: x is undefined'',
       tool_arguments.triedApproaches := Some approaches\<rparr>"

definition zero_id_arguments :: tool_arguments where
  "zero_id_arguments =
     no_arguments\<lparr>tool_arguments.body := Some ''Mock it.'', tool_arguments.questionId := Some 0,
       tool_arguments.confirmedResolved := Some True, tool_arguments.evidence := Some [''log''],
       tool_arguments.postId := Some 0, tool_arguments.confirmedFixed := Some True\<rparr>"

section \<open>Notions used in the properties\<close>

text \<open>
  \<open>sends_only P w w'\<close>: from \<open>w\<close> to \<open>w'\<close> the client has sent only requests that
  satisfy \<open>P\<close>. A read is a GET, a write is a POST.
\<close>

definition sends_only :: "(request \<Rightarrow> bool) \<Rightarrow> request list world \<Rightarrow> request list world \<Rightarrow> bool" where
  "sends_only P w w' \<longleftrightarrow> (\<exists>new. net w' = net w @ new \<and> list_all P new)"

definition is_read :: "request \<Rightarrow> bool" where
  "is_read r \<longleftrightarrow> http_method r = GET"

definition writes :: "request list \<Rightarrow> request list" where
  "writes sent = filter (\<lambda>r. http_method r = POST) sent"

text \<open>
  The outcome of a handler started in \<open>w\<close> is a rejection without a write when the
  handler has thrown and the POST requests sent are those sent before.
\<close>

definition rejected_without_write :: "request list world \<Rightarrow> (thrown + 'a) \<times> request list world \<Rightarrow> bool" where
  "rejected_without_write w outcome \<longleftrightarrow> isl (fst outcome) \<and> writes (net (snd outcome)) = writes (net w)"

text \<open>The options of the duplicate search of \<open>post_question\<close>.\<close>

definition duplicate_search :: search_options where
  "duplicate_search =
     \<lparr>search_options.minScore = Some 0, search_options.limit = Some 3,
      search_options.includeComments = Some False\<rparr>"

text \<open>A service whose transport never fails: every call resolves to some response.\<close>

definition never_rejects :: "remote \<Rightarrow> bool" where
  "never_rejects api \<longleftrightarrow>
     (\<forall>sent req. \<exists>resp dt. questions_api api sent req = (Inr resp, dt)) \<and>
     (\<forall>sent req. \<exists>resp dt. answers_api api sent req = (Inr resp, dt)) \<and>
     (\<forall>sent req. \<exists>resp dt. comments_api api sent req = (Inr resp, dt))"

text \<open>
  The identifiers of the answers that have one, and the requests that the aggregation
  sends for one composite result when comments are included.
\<close>

definition answer_ids :: "StackOverflowAnswer list \<Rightarrow> int list" where
  "answer_ids ans = List.map_filter answer_id ans"

definition requests_for :: "credentials \<Rightarrow> SearchResult \<Rightarrow> request list" where
  "requests_for this r =
     answers_request this (StackOverflowQuestion.question_id (SearchResult.question r))
     # comments_request this (StackOverflowQuestion.question_id (SearchResult.question r))
     # map (comments_request this) (answer_ids (SearchResult.answers r))"

text \<open>
  A composite result whose mapping of answer comments has exactly one entry for every
  identifier of its answers.
\<close>

definition well_commented :: "SearchResult \<Rightarrow> bool" where
  "well_commented r \<longleftrightarrow>
     (case comments r of
        None \<Rightarrow> False
      | Some c \<Rightarrow> distinct (map fst (SearchResultComments.answers c)) \<and>
                 fst ` set (SearchResultComments.answers c) = set (answer_ids (SearchResult.answers r)))"

text \<open>
  A parsed value read as the interfaces declare it: an object with the properties of the
  interface and no other, each required property present with a value of its type, an
  optional property present or not. The dictionary of answer comments is read entry by
  entry, each key being the decimal rendering of an identifier.
\<close>

definition property :: "string \<Rightarrow> (string \<times> json) list \<Rightarrow> json option" where
  "property k kvs = map_of kvs k"

definition only_properties :: "string list \<Rightarrow> (string \<times> json) list \<Rightarrow> bool" where
  "only_properties ks kvs \<longleftrightarrow> list_all (\<lambda>kv. fst kv \<in> set ks) kvs"

definition number_of :: "json option \<Rightarrow> int option" where
  "number_of v = (case v of Some (JNumber n) \<Rightarrow> Some n | _ \<Rightarrow> None)"

definition optional_number_of :: "json option \<Rightarrow> int option option" where
  "optional_number_of v = (case v of None \<Rightarrow> Some None | Some (JNumber n) \<Rightarrow> Some (Some n) | _ \<Rightarrow> None)"

definition string_of_json :: "json \<Rightarrow> string option" where
  "string_of_json v = (case v of JString s \<Rightarrow> Some s | _ \<Rightarrow> None)"

definition text_of :: "json option \<Rightarrow> string option" where
  "text_of v = (case v of Some (JString s) \<Rightarrow> Some s | _ \<Rightarrow> None)"

definition boolean_of :: "json option \<Rightarrow> bool option" where
  "boolean_of v = (case v of Some (JBool b) \<Rightarrow> Some b | _ \<Rightarrow> None)"

definition array_of :: "(json \<Rightarrow> 'a option) \<Rightarrow> json option \<Rightarrow> 'a list option" where
  "array_of dec v = (case v of Some (JArray xs) \<Rightarrow> those (map dec xs) | _ \<Rightarrow> None)"

definition question_of_json :: "json \<Rightarrow> StackOverflowQuestion option" where
  "question_of_json v =
     (case v of
        JObject kvs \<Rightarrow>
          if \<not> only_properties [''question_id'', ''title'', ''body'', ''score'', ''answer_count'',
                 ''is_answered'', ''accepted_answer_id'', ''creation_date'', ''tags'', ''link''] kvs
          then None
          else do {
            qid \<leftarrow> number_of (property ''question_id'' kvs);
            t \<leftarrow> text_of (property ''title'' kvs);
            b \<leftarrow> text_of (property ''body'' kvs);
            s \<leftarrow> number_of (property ''score'' kvs);
            n \<leftarrow> number_of (property ''answer_count'' kvs);
            ia \<leftarrow> boolean_of (property ''is_answered'' kvs);
            acc \<leftarrow> optional_number_of (property ''accepted_answer_id'' kvs);
            d \<leftarrow> number_of (property ''creation_date'' kvs);
            tgs \<leftarrow> array_of string_of_json (property ''tags'' kvs);
            l \<leftarrow> text_of (property ''link'' kvs);
            Some \<lparr>StackOverflowQuestion.question_id = qid, title = t, StackOverflowQuestion.body = b,
                  StackOverflowQuestion.score = s, answer_count = n, is_answered = ia,
                  accepted_answer_id = acc, StackOverflowQuestion.creation_date = d,
                  StackOverflowQuestion.tags = tgs, StackOverflowQuestion.link = l\<rparr>
          }
      | _ \<Rightarrow> None)"

definition answer_of_json :: "json \<Rightarrow> StackOverflowAnswer option" where
  "answer_of_json v =
     (case v of
        JObject kvs \<Rightarrow>
          if \<not> only_properties [''answer_id'', ''question_id'', ''score'', ''is_accepted'', ''body'',
                 ''creation_date'', ''link''] kvs
          then None
          else do {
            aid \<leftarrow> optional_number_of (property ''answer_id'' kvs);
            qid \<leftarrow> number_of (property ''question_id'' kvs);
            s \<leftarrow> number_of (property ''score'' kvs);
            ia \<leftarrow> boolean_of (property ''is_accepted'' kvs);
            b \<leftarrow> text_of (property ''body'' kvs);
            d \<leftarrow> number_of (property ''creation_date'' kvs);
            l \<leftarrow> text_of (property ''link'' kvs);
            Some \<lparr>answer_id = aid, StackOverflowAnswer.question_id = qid, StackOverflowAnswer.score = s,
                  is_accepted = ia, StackOverflowAnswer.body = b,
                  StackOverflowAnswer.creation_date = d, StackOverflowAnswer.link = l\<rparr>
          }
      | _ \<Rightarrow> None)"

definition comment_of_json :: "json \<Rightarrow> StackOverflowComment option" where
  "comment_of_json v =
     (case v of
        JObject kvs \<Rightarrow>
          if \<not> only_properties [''comment_id'', ''post_id'', ''score'', ''body'', ''creation_date''] kvs
          then None
          else do {
            cid \<leftarrow> number_of (property ''comment_id'' kvs);
            pid \<leftarrow> number_of (property ''post_id'' kvs);
            s \<leftarrow> number_of (property ''score'' kvs);
            b \<leftarrow> text_of (property ''body'' kvs);
            d \<leftarrow> number_of (property ''creation_date'' kvs);
            Some \<lparr>comment_id = cid, post_id = pid, StackOverflowComment.score = s,
                  StackOverflowComment.body = b, StackOverflowComment.creation_date = d\<rparr>
          }
      | _ \<Rightarrow> None)"

definition key_of :: "string \<Rightarrow> int option" where
  "key_of s =
     (case read_integer s of
        Some (k, rest) \<Rightarrow> if rest = [] \<and> toString k = s then Some k else None
      | None \<Rightarrow> None)"

definition dictionary_of :: "json option \<Rightarrow> (int \<times> StackOverflowComment list) list option" where
  "dictionary_of v =
     (case v of
        Some (JObject kvs) \<Rightarrow>
          those (map (\<lambda>(k, x). do {
                   i \<leftarrow> key_of k;
                   cs \<leftarrow> array_of comment_of_json (Some x);
                   Some (i, cs) }) kvs)
      | _ \<Rightarrow> None)"

definition comments_of_json :: "json \<Rightarrow> SearchResultComments option" where
  "comments_of_json v =
     (case v of
        JObject kvs \<Rightarrow>
          if \<not> only_properties [''question'', ''answers''] kvs then None
          else do {
            q \<leftarrow> array_of comment_of_json (property ''question'' kvs);
            a \<leftarrow> dictionary_of (property ''answers'' kvs);
            Some \<lparr>SearchResultComments.question = q, SearchResultComments.answers = a\<rparr>
          }
      | _ \<Rightarrow> None)"

definition result_of_json :: "json \<Rightarrow> SearchResult option" where
  "result_of_json v =
     (case v of
        JObject kvs \<Rightarrow>
          if \<not> only_properties [''question'', ''answers'', ''comments''] kvs then None
          else do {
            q \<leftarrow> (case property ''question'' kvs of None \<Rightarrow> None | Some x \<Rightarrow> question_of_json x);
            a \<leftarrow> array_of answer_of_json (property ''answers'' kvs);
            c \<leftarrow> (case property ''comments'' kvs of
                    None \<Rightarrow> Some None
                  | Some x \<Rightarrow> map_option Some (comments_of_json x));
            Some \<lparr>SearchResult.question = q, SearchResult.answers = a, comments = c\<rparr>
          }
      | _ \<Rightarrow> None)"

definition results_of_json :: "json \<Rightarrow> SearchResult list option" where
  "results_of_json v = array_of result_of_json (Some v)"

text \<open>
  Deep equality of composite results: the same question, the same answers in the same
  order, and comments that are both absent or both present with the same question
  comments and, in the dictionary of answer comments, the same comments under every
  key. The order in which the keys of a dictionary were created is no part of its value.
\<close>

definition same_entries :: "(int \<times> 'a) list \<Rightarrow> (int \<times> 'a) list \<Rightarrow> bool" where
  "same_entries m m' \<longleftrightarrow> list_all (\<lambda>k. map_of m k = map_of m' k) (map fst m @ map fst m')"

definition deep_equal :: "SearchResult \<Rightarrow> SearchResult \<Rightarrow> bool" where
  "deep_equal r r' \<longleftrightarrow>
     SearchResult.question r = SearchResult.question r' \<and>
     SearchResult.answers r = SearchResult.answers r' \<and>
     (case comments r of
        None \<Rightarrow> comments r' = None
      | Some c \<Rightarrow>
          (case comments r' of
             None \<Rightarrow> False
           | Some c' \<Rightarrow> SearchResultComments.question c = SearchResultComments.question c' \<and>
                        same_entries (SearchResultComments.answers c) (SearchResultComments.answers c')))"

text \<open>
  An instant is stable for a set of clock readings when none of them is a full window
  later: a call at any of these readings keeps it.
\<close>

definition stable :: "int set \<Rightarrow> int \<Rightarrow> bool" where
  "stable S x \<longleftrightarrow> (\<forall>t\<in>S. t - x < 60000)"

section \<open>Properties of the rate limiter\<close>

lemma checkRateLimit_step:
  "fst (checkRateLimit w) = (length (filter (\<lambda>i. now w - i < 60000) (requestTimestamps w)) < 30)
   \<and> requestTimestamps (snd (checkRateLimit w))
       = filter (\<lambda>i. now w - i < 60000) (requestTimestamps w) @ (if fst (checkRateLimit w) then [now w] else [])"
  by (simp add: checkRateLimit_def Let_def MAX_REQUESTS_PER_WINDOW_def RATE_LIMIT_WINDOW_MS_def)

lemma checkRateLimit_permit_spec:
  assumes "\<forall>i\<in>set (requestTimestamps w). now w - i \<noteq> 60000"
  shows "checkRateLimit w =
     (case permit_spec (now w) (requestTimestamps w) of
        (permitted, remaining) \<Rightarrow> (permitted, w\<lparr>requestTimestamps := remaining\<rparr>))"
proof -
  have "filter (\<lambda>i. \<not> (now w - i > 60000)) (requestTimestamps w)
        = filter (\<lambda>i. now w - i < 60000) (requestTimestamps w)"
    using assms by (intro filter_cong) auto
  then show ?thesis
    by (simp add: checkRateLimit_def permit_spec_def Let_def
        MAX_REQUESTS_PER_WINDOW_def RATE_LIMIT_WINDOW_MS_def)
qed

lemma checkRateLimit_denied:
  "30 \<le> length (filter (\<lambda>x. t - x < 60000) (requestTimestamps w)) \<Longrightarrow>
   checkRateLimit (w\<lparr>now := t\<rparr>)
     = (False, w\<lparr>now := t, requestTimestamps := filter (\<lambda>x. t - x < 60000) (requestTimestamps w)\<rparr>)"
  by (simp add: checkRateLimit_def Let_def MAX_REQUESTS_PER_WINDOW_def RATE_LIMIT_WINDOW_MS_def)

lemma checkRateLimit_permitted:
  "length (filter (\<lambda>x. t - x < 60000) (requestTimestamps w)) < 30 \<Longrightarrow>
   checkRateLimit (w\<lparr>now := t\<rparr>)
     = (True, w\<lparr>now := t, requestTimestamps := filter (\<lambda>x. t - x < 60000) (requestTimestamps w) @ [t]\<rparr>)"
  by (simp add: checkRateLimit_def Let_def MAX_REQUESTS_PER_WINDOW_def RATE_LIMIT_WINDOW_MS_def)

lemma checkRateLimit_calls_Cons:
  "checkRateLimit (w\<lparr>now := t\<rparr>) = (b, w') \<Longrightarrow>
   fst (checkRateLimit_calls (t # ts) w) = b # fst (checkRateLimit_calls ts w')"
  by (simp split: prod.splits)

lemma calls_bound_aux:
  assumes "\<forall>t\<in>S. \<forall>t'\<in>S. t - t' < 60000"
  shows "set ts \<subseteq> S \<Longrightarrow>
     count_list (fst (checkRateLimit_calls ts w)) True
       \<le> 30 - length (filter (stable S) (requestTimestamps w))"
proof (induction ts arbitrary: w)
  case Nil
  then show ?case by simp
next
  case (Cons t ts)
  define L where "L = requestTimestamps w"
  define F where "F = filter (\<lambda>x. t - x < 60000) L"
  have tS: "t \<in> S" and sub: "set ts \<subseteq> S" using Cons.prems by auto
  have keep: "filter (stable S) F = filter (stable S) L"
    unfolding F_def using tS by (auto simp: stable_def intro: filter_cong)
  have st: "stable S t" using assms tS by (auto simp: stable_def)
  show ?case
  proof (cases "30 \<le> length F")
    case True
    define w1 where "w1 = w\<lparr>now := t, requestTimestamps := F\<rparr>"
    have "checkRateLimit (w\<lparr>now := t\<rparr>) = (False, w1)"
      using True checkRateLimit_denied[of t w] by (simp add: F_def L_def w1_def)
    then have "fst (checkRateLimit_calls (t # ts) w) = False # fst (checkRateLimit_calls ts w1)"
      by (rule checkRateLimit_calls_Cons)
    moreover have "count_list (fst (checkRateLimit_calls ts w1)) True
            \<le> 30 - length (filter (stable S) F)"
      using Cons.IH[OF sub, of w1] by (simp add: w1_def)
    ultimately show ?thesis by (simp add: keep L_def)
  next
    case False
    define w1 where "w1 = w\<lparr>now := t, requestTimestamps := F @ [t]\<rparr>"
    have "checkRateLimit (w\<lparr>now := t\<rparr>) = (True, w1)"
      using False checkRateLimit_permitted[of t w] by (simp add: F_def L_def w1_def)
    then have "fst (checkRateLimit_calls (t # ts) w) = True # fst (checkRateLimit_calls ts w1)"
      by (rule checkRateLimit_calls_Cons)
    moreover have "count_list (fst (checkRateLimit_calls ts w1)) True
            \<le> 30 - (length (filter (stable S) F) + 1)"
      using Cons.IH[OF sub, of w1] st by (simp add: w1_def)
    moreover have "length (filter (stable S) F) < 30"
      by (rule le_less_trans[OF length_filter_le]) (use False in simp)
    ultimately show ?thesis by (simp add: keep[symmetric] L_def[symmetric])
  qed
qed

lemma calls_bound:
  assumes "\<forall>t\<in>set ts. \<forall>t'\<in>set ts. t - t' < 60000"
  shows "count_list (fst (checkRateLimit_calls ts w)) True \<le> 30"
  using calls_bound_aux[OF assms, of ts w] by simp


lemma calls_all_permitted:
  "sorted (pre @ ts) \<Longrightarrow> length (pre @ ts) \<le> 30 \<Longrightarrow>
   (\<forall>x\<in>set (pre @ ts). \<forall>y\<in>set (pre @ ts). x - y < 60000) \<Longrightarrow>
   requestTimestamps w = pre \<Longrightarrow>
   fst (checkRateLimit_calls ts w) = replicate (length ts) True \<and>
   requestTimestamps (snd (checkRateLimit_calls ts w)) = pre @ ts"
proof (induction ts arbitrary: pre w)
  case Nil
  then show ?case by simp
next
  case (Cons t ts)
  have F: "filter (\<lambda>x. t - x < 60000) (requestTimestamps w) = pre"
    using Cons.prems(3,4) by (auto intro!: filter_True)
  define w1 where "w1 = w\<lparr>now := t, requestTimestamps := pre @ [t]\<rparr>"
  have step: "checkRateLimit (w\<lparr>now := t\<rparr>) = (True, w1)"
    using checkRateLimit_permitted[of t w] Cons.prems(2) by (simp add: F w1_def)
  have IH: "fst (checkRateLimit_calls ts w1) = replicate (length ts) True \<and>
            requestTimestamps (snd (checkRateLimit_calls ts w1)) = (pre @ [t]) @ ts"
    using Cons.prems by (intro Cons.IH) (simp_all add: w1_def)
  show ?case using IH by (auto simp: step split: prod.splits)
qed

lemma sorted_bounds:
  "sorted ts \<Longrightarrow> x \<in> set ts \<Longrightarrow> hd ts \<le> (x::int) \<and> x \<le> last ts"
  by (induction ts) (auto split: if_splits)

lemma calls_append:
  "checkRateLimit_calls (xs @ ys) w =
     (case checkRateLimit_calls xs w of
        (bs, w') \<Rightarrow> (case checkRateLimit_calls ys w' of (cs, w'') \<Rightarrow> (bs @ cs, w'')))"
  by (induction xs arbitrary: w) (auto split: prod.splits)

lemma calls_31st:
  assumes "sorted ts" "length ts = 30" "last ts - hd ts < 60000"
    "requestTimestamps w = []" "last ts \<le> t"
  shows "fst (checkRateLimit_calls (ts @ [t]) w) = replicate 30 True @ [60000 \<le> t - hd ts]"
proof -
  have ne: "ts \<noteq> []" using assms(2) by auto
  have win: "\<forall>x\<in>set ([] @ ts). \<forall>y\<in>set ([] @ ts). x - y < 60000"
  proof (intro ballI)
    fix x y assume "x \<in> set ([] @ ts)" "y \<in> set ([] @ ts)"
    then have "x \<le> last ts" "hd ts \<le> y"
      using sorted_bounds[OF assms(1), of x] sorted_bounds[OF assms(1), of y] by simp_all
    then show "x - y < 60000" using assms(3) by linarith
  qed
  obtain bs w' where run: "checkRateLimit_calls ts w = (bs, w')"
    by (cases "checkRateLimit_calls ts w")
  have bs: "bs = replicate 30 True" and w': "requestTimestamps w' = ts"
    using calls_all_permitted[of "[]" ts w] assms(1,2,4) win run by simp_all
  define F where "F = filter (\<lambda>x. t - x < 60000) ts"
  have last: "fst (checkRateLimit (w'\<lparr>now := t\<rparr>)) = (60000 \<le> t - hd ts)"
  proof (cases "60000 \<le> t - hd ts")
    case True
    have "hd ts \<in> set ts" using ne by simp
    then have "length F < length ts"
      unfolding F_def using True by (intro length_filter_less[of "hd ts"]) auto
    then show ?thesis
      using checkRateLimit_permitted[of t w'] True assms(2) by (simp add: w' F_def)
  next
    case False
    have "F = ts"
      unfolding F_def using sorted_bounds[OF assms(1)] False by (intro filter_True) fastforce
    then show ?thesis
      using checkRateLimit_denied[of t w'] False assms(2) by (simp add: w' F_def)
  qed
  show ?thesis
    using last by (auto simp: calls_append run bs split: prod.splits)
qed


text \<open>
  Claim C2. A call of \<open>checkRateLimit\<close> discards the recorded instants that are 60
  seconds old or older, denies when 30 or more remain, and otherwise appends the current
  instant and permits. This is the step the specification words, which discards the
  instants older than 60 seconds, whenever no recorded instant is exactly 60 seconds old.
  Of the calls of any sequence whose clock readings lie within one window (any two of
  them less than 60 seconds apart), at most 30 are permitted, whatever the limiter had
  recorded before. After 30 permitted calls within a window, the next call is denied as
  long as the oldest of them is less than 60 seconds old, and permitted from the moment it
  is exactly 60 seconds old.
\<close>

theorem checkRateLimit_rolling_window:
  "fst (checkRateLimit w) = (length (filter (\<lambda>i. now w - i < 60000) (requestTimestamps w)) < 30)
   \<and> requestTimestamps (snd (checkRateLimit w))
       = filter (\<lambda>i. now w - i < 60000) (requestTimestamps w) @ (if fst (checkRateLimit w) then [now w] else [])
   \<and> ((\<forall>i\<in>set (requestTimestamps w). now w - i \<noteq> 60000) \<longrightarrow>
        checkRateLimit w =
          (case permit_spec (now w) (requestTimestamps w) of
             (permitted, remaining) \<Rightarrow> (permitted, w\<lparr>requestTimestamps := remaining\<rparr>)))
   \<and> ((\<forall>t\<in>set ts. \<forall>t'\<in>set ts. t - t' < 60000) \<longrightarrow>
        count_list (fst (checkRateLimit_calls ts w)) True \<le> 30)
   \<and> (sorted us \<and> length us = 30 \<and> last us - hd us < 60000 \<and>
        requestTimestamps w = [] \<and> last us \<le> t \<longrightarrow>
        fst (checkRateLimit_calls (us @ [t]) w) = replicate 30 True @ [60000 \<le> t - hd us])"
  using checkRateLimit_step[of w] checkRateLimit_permit_spec[of w] calls_bound[of ts w] calls_31st[of us w t]
  by blast

theorem checkRateLimit_rolling_window_witness:
  "checkRateLimit \<lparr>now = 61000, requestTimestamps = [0, 2000, 60000], net = ()\<rparr>
     = (case permit_spec 61000 [0, 2000, 60000] of
          (permitted, remaining) \<Rightarrow> (permitted, \<lparr>now = 61000, requestTimestamps = remaining, net = ()\<rparr>))
   \<and> permit_spec 61000 [0, 2000, 60000] = (True, [2000, 60000, 61000])
   \<and> count_list (fst (checkRateLimit_calls [0, 1000, 59999] (\<lparr>now = 0, requestTimestamps = [], net = ()\<rparr>))) True \<le> 30
   \<and> fst (checkRateLimit_calls (map (\<lambda>i. 2000 * int i) [0..<30] @ [59999])
            (\<lparr>now = 0, requestTimestamps = [], net = ()\<rparr>)) = replicate 30 True @ [False]
   \<and> fst (checkRateLimit_calls (map (\<lambda>i. 2000 * int i) [0..<30] @ [60000])
            (\<lparr>now = 0, requestTimestamps = [], net = ()\<rparr>)) = replicate 30 True @ [True]"
proof -
  let ?w = "\<lparr>now = 0, requestTimestamps = [], net = ()\<rparr> :: unit world"
  let ?v = "\<lparr>now = 61000, requestTimestamps = [0, 2000, 60000], net = ()\<rparr> :: unit world"
  let ?us = "map (\<lambda>i. 2000 * int i) [0..<30]"
  have h0: "\<forall>i\<in>set (requestTimestamps ?v). now ?v - i \<noteq> 60000"
    by simp
  have p: "permit_spec 61000 [0, 2000, 60000] = (True, [2000, 60000, 61000])"
    by (simp add: permit_spec_def)
  have h1: "\<forall>t\<in>set [0, 1000, 59999::int]. \<forall>t'\<in>set [0, 1000, 59999]. t - t' < 60000"
    by simp
  have h2: "sorted ?us \<and> length ?us = 30 \<and> last ?us - hd ?us < 60000 \<and>
        requestTimestamps ?w = [] \<and> last ?us \<le> 59999"
    by code_simp
  have h3: "sorted ?us \<and> length ?us = 30 \<and> last ?us - hd ?us < 60000 \<and>
        requestTimestamps ?w = [] \<and> last ?us \<le> 60000"
    by code_simp
  have hd: "hd ?us = 0" by code_simp
  have c1: "checkRateLimit ?v
     = (case permit_spec 61000 [0, 2000, 60000] of
          (permitted, remaining) \<Rightarrow> (permitted, \<lparr>now = 61000, requestTimestamps = remaining, net = ()\<rparr>))"
    using checkRateLimit_rolling_window[of ?v "[0, 1000, 59999]" ?us 59999] h0 by simp
  show ?thesis
    using c1 p checkRateLimit_rolling_window[of ?w "[0, 1000, 59999]" ?us 59999]
      checkRateLimit_rolling_window[of ?w "[0, 1000, 59999]" ?us 60000] h1 h2 h3 hd
    by simp
qed

text \<open>
  The step as the specification words it keeps an instant that is exactly 60 seconds old.
  After 30 calls at instant 0, all permitted, a call at instant 60000 is permitted by
  \<open>checkRateLimit\<close>, which has discarded the 30 instants, and denied by the step of the
  specification, for which they remain.
\<close>

theorem checkRateLimit_rolling_window_counterexample:
  "fst (checkRateLimit_calls (replicate 30 0) \<lparr>now = 0, requestTimestamps = [], net = ()\<rparr>)
     = replicate 30 True
   \<and> requestTimestamps (snd (checkRateLimit_calls (replicate 30 0) \<lparr>now = 0, requestTimestamps = [], net = ()\<rparr>))
     = replicate 30 0
   \<and> fst (checkRateLimit \<lparr>now = 60000, requestTimestamps = replicate 30 0, net = ()\<rparr>) = True
   \<and> fst (permit_spec 60000 (replicate 30 0)) = False"
  by code_simp

section \<open>Properties of the throttled invocation\<close>

lemma checkRateLimit_net: "checkRateLimit w = (b, w1) \<Longrightarrow> net w1 = net w"
  by (auto simp: checkRateLimit_def Let_def split: if_splits)

lemma withRateLimit_denied:
  "checkRateLimit w = (False, w1) \<Longrightarrow>
   withRateLimit fn retries w = withRateLimit fn retries (elapse RETRY_AFTER_MS w1)"
  by (subst withRateLimit.simps) simp

lemma withRateLimit_permitted:
  "checkRateLimit w = (True, w1) \<Longrightarrow>
   withRateLimit fn retries w =
     (case run_operation fn w1 of
        (Inr v, w2) \<Rightarrow> (Inr v, w2)
      | (Inl error, w2) \<Rightarrow>
          if retries > 0 \<and> is_rate_limited error
          then withRateLimit fn (retries - 1) (elapse RETRY_AFTER_MS w2)
          else (Inl error, w2))"
  by (subst withRateLimit.simps) simp



lemma withRateLimit_attempt:
  "\<exists>w1. net w1 = net w \<and> withRateLimit fn retries w = attempt fn retries w1"
proof (induction fn retries w rule: withRateLimit.induct)
  case (1 fn retries w)
  obtain b w1 where chk: "checkRateLimit w = (b, w1)"
    by (cases "checkRateLimit w")
  show ?case
  proof (cases b)
    case True
    have "withRateLimit fn retries w = attempt fn retries w1"
      unfolding attempt_def using chk True by (intro withRateLimit_permitted) simp
    moreover have "net w1 = net w" using chk by (rule checkRateLimit_net)
    ultimately show ?thesis by blast
  next
    case False
    have d: "checkRateLimit w = (False, w1)" using chk False by simp
    obtain w2 where "net w2 = net (elapse RETRY_AFTER_MS w1)"
      and "withRateLimit fn retries (elapse RETRY_AFTER_MS w1) = attempt fn retries w2"
      using "1.IH"(1)[OF chk[symmetric]] False by auto
    moreover have "net (elapse RETRY_AFTER_MS w1) = net w"
      using checkRateLimit_net[OF d] by (simp add: elapse_def)
    ultimately show ?thesis
      using withRateLimit_denied[OF d, of fn retries] by auto
  qed
qed

lemma run_operation_net:
  "fn (net w) = (outcome, s', dt) \<Longrightarrow> run_operation fn w = (outcome, elapse (int dt) (w\<lparr>net := s'\<rparr>))"
  by (simp add: run_operation_def)

lemma withRateLimit_success:
  assumes "fn (net w) = (Inr v, s', dt)"
  shows "\<exists>w'. net w' = s' \<and> withRateLimit fn retries w = (Inr v, w')"
proof -
  obtain w1 where w1: "net w1 = net w" "withRateLimit fn retries w = attempt fn retries w1"
    using withRateLimit_attempt by blast
  have "run_operation fn w1 = (Inr v, elapse (int dt) (w1\<lparr>net := s'\<rparr>))"
    using assms w1(1) by (simp add: run_operation_net)
  then have "attempt fn retries w1 = (Inr v, elapse (int dt) (w1\<lparr>net := s'\<rparr>))"
    by (simp add: attempt_def)
  then show ?thesis using w1(2) by (auto simp: elapse_def)
qed

lemma withRateLimit_retry:
  assumes "fn (net w) = (Inl e, s', dt)" "is_rate_limited e" "0 < retries"
  shows "\<exists>w'. net w' = s' \<and> withRateLimit fn retries w = withRateLimit fn (retries - 1) w'"
proof -
  obtain w1 where w1: "net w1 = net w" "withRateLimit fn retries w = attempt fn retries w1"
    using withRateLimit_attempt by blast
  have "run_operation fn w1 = (Inl e, elapse (int dt) (w1\<lparr>net := s'\<rparr>))"
    using assms w1(1) by (simp add: run_operation_net)
  then have "attempt fn retries w1
     = withRateLimit fn (retries - 1) (elapse RETRY_AFTER_MS (elapse (int dt) (w1\<lparr>net := s'\<rparr>)))"
    using assms(2,3) by (simp add: attempt_def)
  moreover have "net (elapse RETRY_AFTER_MS (elapse (int dt) (w1\<lparr>net := s'\<rparr>))) = s'"
    by (simp add: elapse_def)
  ultimately show ?thesis using w1(2) by metis
qed

lemma withRateLimit_failure:
  assumes "fn (net w) = (Inl e, s', dt)" "\<not> is_rate_limited e \<or> retries = 0"
  shows "\<exists>w'. net w' = s' \<and> withRateLimit fn retries w = (Inl e, w')"
proof -
  obtain w1 where w1: "net w1 = net w" "withRateLimit fn retries w = attempt fn retries w1"
    using withRateLimit_attempt by blast
  have "run_operation fn w1 = (Inl e, elapse (int dt) (w1\<lparr>net := s'\<rparr>))"
    using assms w1(1) by (simp add: run_operation_net)
  then have "attempt fn retries w1 = (Inl e, elapse (int dt) (w1\<lparr>net := s'\<rparr>))"
    using assms(2) by (auto simp: attempt_def)
  then show ?thesis using w1(2) by (auto simp: elapse_def)
qed

lemma counted_step:
  "fn s = (outcome, s', dt) \<Longrightarrow> counted fn (s, k) = (outcome, (s', Suc k), dt)"
  by (simp add: counted_def)

lemma withRateLimit_twice_429:
  assumes "fn s0 = (Inl e1, s1, d1)" "is_rate_limited e1"
    and "fn s1 = (Inl e2, s2, d2)" "is_rate_limited e2"
    and "fn s2 = (Inr v, s3, d3)"
    and "net w = (s0, 0)"
  shows "\<exists>w'. withRateLimit (counted fn) 3 w = (Inr v, w') \<and> net w' = (s3, 3)"
proof -
  obtain wa where wa: "net wa = (s1, Suc 0)"
      "withRateLimit (counted fn) 3 w = withRateLimit (counted fn) 2 wa"
    using withRateLimit_retry[of "counted fn" w e1 "(s1, Suc 0)" d1 3]
      assms(1,2,6) by (auto simp: counted_def)
  obtain wb where wb: "net wb = (s2, Suc (Suc 0))"
      "withRateLimit (counted fn) 2 wa = withRateLimit (counted fn) 1 wb"
    using withRateLimit_retry[of "counted fn" wa e2 "(s2, Suc (Suc 0))" d2 2]
      assms(3,4) wa(1) by (auto simp: counted_def)
  obtain wc where wc: "net wc = (s3, Suc (Suc (Suc 0)))"
      "withRateLimit (counted fn) 1 wb = (Inr v, wc)"
    using withRateLimit_success[of "counted fn" wb v "(s3, Suc (Suc (Suc 0)))" d3 1]
      assms(5) wb(1) by (auto simp: counted_def)
  show ?thesis using wa(2) wb(2) wc by (simp add: numeral_3_eq_3)
qed

text \<open>
  Claim C3. An operation that is refused as rate limited (429) on its first two attempts
  and succeeds on the third, invoked with retry budget 3, yields its success value and is
  attempted exactly three times (the attempts are counted by \<open>counted\<close>). When the local
  limiter denies the call, \<open>withRateLimit\<close> waits 2000 milliseconds and starts again with
  the same budget. A failure that is not a 429, or any failure when the budget is 0, is
  returned unchanged.
\<close>

theorem withRateLimit_retry_policy:
  "(fn s0 = (Inl e1, s1, d1) \<and> is_rate_limited e1 \<and>
    fn s1 = (Inl e2, s2, d2) \<and> is_rate_limited e2 \<and>
    fn s2 = (Inr v, s3, d3) \<and> net w = (s0, 0) \<longrightarrow>
      (\<exists>w'. withRateLimit (counted fn) 3 w = (Inr v, w') \<and> net w' = (s3, 3)))
   \<and> (checkRateLimit u = (False, u1) \<longrightarrow>
        withRateLimit op retries u = withRateLimit op retries (u1\<lparr>now := now u1 + 2000\<rparr>))
   \<and> (op (net u) = (Inl e, s', dt) \<and> (\<not> is_rate_limited e \<or> retries = 0) \<longrightarrow>
        (\<exists>u'. withRateLimit op retries u = (Inl e, u') \<and> net u' = s'))"
proof (intro conjI impI)
  assume "fn s0 = (Inl e1, s1, d1) \<and> is_rate_limited e1 \<and>
    fn s1 = (Inl e2, s2, d2) \<and> is_rate_limited e2 \<and>
    fn s2 = (Inr v, s3, d3) \<and> net w = (s0, 0)"
  then show "\<exists>w'. withRateLimit (counted fn) 3 w = (Inr v, w') \<and> net w' = (s3, 3)"
    using withRateLimit_twice_429[of fn s0 e1 s1 d1 e2 s2 d2 v s3 d3 w] by blast
next
  assume "checkRateLimit u = (False, u1)"
  then show "withRateLimit op retries u = withRateLimit op retries (u1\<lparr>now := now u1 + 2000\<rparr>)"
    using withRateLimit_denied[of u u1 op retries] by (simp add: elapse_def RETRY_AFTER_MS_def)
next
  assume "op (net u) = (Inl e, s', dt) \<and> (\<not> is_rate_limited e \<or> retries = 0)"
  then show "\<exists>u'. withRateLimit op retries u = (Inl e, u') \<and> net u' = s'"
    using withRateLimit_failure[of op u e s' dt retries] by blast
qed

theorem withRateLimit_retry_policy_witness:
  "(\<exists>w'. withRateLimit (counted flaky_operation) 3 \<lparr>now = 0, requestTimestamps = [], net = (0, 0)\<rparr>
           = (Inr ''success'', w') \<and> net w' = (3, 3))
   \<and> withRateLimit broken_operation 3 \<lparr>now = 100, requestTimestamps = replicate 30 0, net = 0\<rparr>
       = withRateLimit broken_operation 3 \<lparr>now = 2100, requestTimestamps = replicate 30 0, net = 0\<rparr>
   \<and> (\<exists>u'. withRateLimit broken_operation 3 \<lparr>now = 100, requestTimestamps = replicate 30 0, net = 0\<rparr>
           = (Inl (JsError ''connection reset'' None), u') \<and> net u' = 1)"
proof -
  let ?e = "JsError ''Request failed with status 429'' None"
  let ?w = "\<lparr>now = 0, requestTimestamps = [], net = (0::nat, 0::nat)\<rparr>"
  let ?u = "\<lparr>now = 100, requestTimestamps = replicate 30 0, net = 0::nat\<rparr>"
  have h1: "flaky_operation 0 = (Inl ?e, 1, 120) \<and> is_rate_limited ?e \<and>
    flaky_operation 1 = (Inl ?e, 2, 120) \<and> is_rate_limited ?e \<and>
    flaky_operation 2 = (Inr ''success'', 3, 120) \<and> net ?w = (0, 0)"
    by code_simp
  have h2: "checkRateLimit ?u = (False, ?u)"
    by code_simp
  have h3: "broken_operation (net ?u) = (Inl (JsError ''connection reset'' None), 1, 5) \<and>
    (\<not> is_rate_limited (JsError ''connection reset'' None) \<or> (3::nat) = 0)"
    by code_simp
  have upd: "?u\<lparr>now := now ?u + 2000\<rparr> = \<lparr>now = 2100, requestTimestamps = replicate 30 0, net = 0::nat\<rparr>"
    by simp
  have "(\<exists>w'. withRateLimit (counted flaky_operation) 3 ?w = (Inr ''success'', w') \<and> net w' = (3, 3))
    \<and> withRateLimit broken_operation 3 ?u = withRateLimit broken_operation 3 (?u\<lparr>now := now ?u + 2000\<rparr>)
    \<and> (\<exists>u'. withRateLimit broken_operation 3 ?u = (Inl (JsError ''connection reset'' None), u') \<and> net u' = 1)"
    using withRateLimit_retry_policy[of flaky_operation 0 ?e 1 120 ?e 2 120 "''success''" 3 120 ?w
        ?u ?u broken_operation 3 "JsError ''connection reset'' None" 1 5] h1 h2 h3
    by blast
  then show ?thesis
    unfolding upd by blast
qed



section \<open>Properties of the read operations\<close>

lemma withRateLimit_fetch_resolved:
  assumes "endpoint (net w) req = (Inr resp, dt)"
  shows "\<exists>w'. withRateLimit (fetch endpoint req) retries w = (Inr resp, w') \<and> net w' = net w @ [req]"
  using withRateLimit_success[of "fetch endpoint req" w resp "net w @ [req]" dt retries] assms
  by (auto simp: fetch_def)

text \<open>
  Claim C9. Whenever the call of \<open>fetchAnswers\<close> (of \<open>fetchComments\<close>) ends with an
  \<open>ok\<close> response whose parsed body has no \<open>items\<close> field, after however many waits and
  retries, the function returns the empty array: not \<open>undefined\<close>, and no error.
\<close>

theorem fetch_items_missing:
  "(withRateLimit (fetch (answers_api api) (answers_request this qid)) 3 w = (Inr resp, w') \<and>
    ok resp \<and> json resp = Inr data \<and> items data = None \<longrightarrow>
      fetchAnswers this api qid w = (Inr [], w'))
   \<and> (withRateLimit (fetch (comments_api api) (comments_request this pid)) 3 u = (Inr cresp, u') \<and>
    ok cresp \<and> json cresp = Inr cdata \<and> items cdata = None \<longrightarrow>
      fetchComments this api pid u = (Inr [], u'))"
  by (simp add: fetchAnswers_def fetchComments_def)

theorem fetch_items_missing_witness:
  "fst (fetchAnswers no_credentials (canned_remote None None None) 42 idle_world) = Inr []
   \<and> fst (fetchComments no_credentials (canned_remote None None None) 42 idle_world) = Inr []
   \<and> fst (fetchAnswers no_credentials retried_remote 42 idle_world) = Inr []
   \<and> length (net (snd (fetchAnswers no_credentials retried_remote 42 idle_world))) = 3
   \<and> fst (fetchComments no_credentials retried_remote 42 idle_world) = Inr []"
proof -
  let ?d = "\<lparr>items = None, error_id = None, error_name = None, error_message = None\<rparr>"
  obtain w1 where a1: "withRateLimit (fetch (answers_api (canned_remote None None None)) (answers_request no_credentials 42)) 3 idle_world
      = (Inr (ok_response None), w1)"
    using withRateLimit_fetch_resolved[of "answers_api (canned_remote None None None)" idle_world
        "answers_request no_credentials 42" "ok_response None" 40 3]
    by (auto simp: canned_remote_def)
  obtain w2 where a2: "withRateLimit (fetch (comments_api (canned_remote None None None)) (comments_request no_credentials 42)) 3 idle_world
      = (Inr (ok_response None), w2)"
    using withRateLimit_fetch_resolved[of "comments_api (canned_remote None None None)" idle_world
        "comments_request no_credentials 42" "ok_response None" 40 3]
    by (auto simp: canned_remote_def)
  define w3 where "w3 = snd (withRateLimit (fetch (answers_api retried_remote) (answers_request no_credentials 42)) 3 idle_world)"
  have "fst (withRateLimit (fetch (answers_api retried_remote) (answers_request no_credentials 42)) 3 idle_world)
      = Inr (ok_response None)"
    by code_simp
  then have a3: "withRateLimit (fetch (answers_api retried_remote) (answers_request no_credentials 42)) 3 idle_world
      = (Inr (ok_response None), w3)"
    by (simp add: w3_def prod_eq_iff)
  have n3: "length (net w3) = 3"
    unfolding w3_def by code_simp
  define w4 where "w4 = snd (withRateLimit (fetch (comments_api retried_remote) (comments_request no_credentials 42)) 3 idle_world)"
  have "fst (withRateLimit (fetch (comments_api retried_remote) (comments_request no_credentials 42)) 3 idle_world)
      = Inr (ok_response None)"
    by code_simp
  then have a4: "withRateLimit (fetch (comments_api retried_remote) (comments_request no_credentials 42)) 3 idle_world
      = (Inr (ok_response None), w4)"
    by (simp add: w4_def prod_eq_iff)
  have ok: "ok (ok_response None :: StackOverflowAnswer response) \<and> json (ok_response None :: StackOverflowAnswer response) = Inr ?d \<and> items ?d = None"
    "ok (ok_response None :: StackOverflowComment response) \<and> json (ok_response None :: StackOverflowComment response) = Inr ?d \<and> items ?d = None"
    by (simp_all add: ok_response_def)
  show ?thesis
    using fetch_items_missing[of "canned_remote None None None" no_credentials 42 idle_world "ok_response None" w1 ?d
        42 idle_world "ok_response None" w2 ?d]
      fetch_items_missing[of retried_remote no_credentials 42 idle_world "ok_response None" w3 ?d
        42 idle_world "ok_response None" w4 ?d]
      a1 a2 a3 a4 n3 ok
    by simp
qed

lemma sends_only_refl: "sends_only P w w"
  by (simp add: sends_only_def)

lemma sends_only_trans: "sends_only P w w1 \<Longrightarrow> sends_only P w1 w2 \<Longrightarrow> sends_only P w w2"
  by (auto simp: sends_only_def)

lemma sends_only_net: "net w1 = net w \<Longrightarrow> sends_only P w1 w2 \<Longrightarrow> sends_only P w w2"
  by (auto simp: sends_only_def)

lemma attempt_fetch:
  "attempt (fetch endpoint req) retries w1 =
     (case endpoint (net w1) req of
        (Inr v, dt) \<Rightarrow> (Inr v, elapse (int dt) (w1\<lparr>net := net w1 @ [req]\<rparr>))
      | (Inl error, dt) \<Rightarrow>
          if retries > 0 \<and> is_rate_limited error
          then withRateLimit (fetch endpoint req) (retries - 1)
                 (elapse RETRY_AFTER_MS (elapse (int dt) (w1\<lparr>net := net w1 @ [req]\<rparr>)))
          else (Inl error, elapse (int dt) (w1\<lparr>net := net w1 @ [req]\<rparr>)))"
  by (simp add: attempt_def run_operation_def fetch_def split: prod.splits sum.splits)

lemma withRateLimit_fetch_sends:
  "P req \<Longrightarrow> sends_only P w (snd (withRateLimit (fetch endpoint req) retries w))"
proof (induction retries arbitrary: w)
  case 0
  obtain w1 where w1: "net w1 = net w"
      "withRateLimit (fetch endpoint req) 0 w = attempt (fetch endpoint req) 0 w1"
    using withRateLimit_attempt by blast
  have "sends_only P w1 (snd (attempt (fetch endpoint req) 0 w1))"
    using 0 by (auto simp: attempt_fetch sends_only_def elapse_def split: prod.splits sum.splits)
  then show ?case using w1 sends_only_net[of w1 w P] by simp
next
  case (Suc n)
  obtain w1 where w1: "net w1 = net w"
      "withRateLimit (fetch endpoint req) (Suc n) w = attempt (fetch endpoint req) (Suc n) w1"
    using withRateLimit_attempt by blast
  obtain outcome dt where ep: "endpoint (net w1) req = (outcome, dt)"
    by (cases "endpoint (net w1) req")
  define w2 where "w2 = elapse (int dt) (w1\<lparr>net := net w1 @ [req]\<rparr>)"
  have step: "sends_only P w1 w2"
    using Suc.prems by (simp add: sends_only_def w2_def elapse_def)
  have "sends_only P w1 (snd (attempt (fetch endpoint req) (Suc n) w1))"
  proof (cases outcome)
    case (Inr v)
    then show ?thesis using step ep by (simp add: attempt_fetch w2_def)
  next
    case (Inl error)
    show ?thesis
    proof (cases "is_rate_limited error")
      case True
      have "sends_only P (elapse RETRY_AFTER_MS w2)
              (snd (withRateLimit (fetch endpoint req) n (elapse RETRY_AFTER_MS w2)))"
        using Suc.IH[OF Suc.prems] .
      moreover have "sends_only P w1 (elapse RETRY_AFTER_MS w2)"
        using step by (simp add: sends_only_def elapse_def)
      ultimately have "sends_only P w1 (snd (withRateLimit (fetch endpoint req) n (elapse RETRY_AFTER_MS w2)))"
        using sends_only_trans by blast
      then show ?thesis
        using Inl True ep by (simp add: attempt_fetch w2_def)
    next
      case False
      then show ?thesis using step ep Inl by (simp add: attempt_fetch w2_def)
    qed
  qed
  then show ?case using w1 sends_only_net[of w1 w P] by simp
qed

lemma fetchAnswers_world:
  "snd (fetchAnswers this api qid w) = snd (withRateLimit (fetch (answers_api api) (answers_request this qid)) 3 w)"
  by (simp add: fetchAnswers_def split: prod.splits sum.splits)

lemma fetchComments_world:
  "snd (fetchComments this api pid w) = snd (withRateLimit (fetch (comments_api api) (comments_request this pid)) 3 w)"
  by (simp add: fetchComments_def split: prod.splits sum.splits)

lemma fetchQuestion_world:
  "snd (fetchQuestion this api qid w) = snd (withRateLimit (fetch (questions_api api) (question_request this qid)) 3 w)"
  by (simp add: fetchQuestion_def split: prod.splits sum.splits)

lemma fetchAnswers_reads: "sends_only is_read w (snd (fetchAnswers this api qid w))"
  unfolding fetchAnswers_world
  by (rule withRateLimit_fetch_sends) (simp add: is_read_def answers_request_def)

lemma fetchComments_reads: "sends_only is_read w (snd (fetchComments this api pid w))"
  unfolding fetchComments_world
  by (rule withRateLimit_fetch_sends) (simp add: is_read_def comments_request_def)

lemma fetchQuestion_reads: "sends_only is_read w (snd (fetchQuestion this api qid w))"
  unfolding fetchQuestion_world
  by (rule withRateLimit_fetch_sends) (simp add: is_read_def question_request_def)

lemma answer_comments_loop_reads:
  "sends_only is_read w (snd (answer_comments_loop this api ans m w))"
proof (induction ans arbitrary: m w)
  case Nil
  show ?case by (simp add: sends_only_refl)
next
  case (Cons a ans)
  show ?case
  proof (cases "answer_id a")
    case None
    then show ?thesis using Cons.IH by simp
  next
    case (Some aid)
    obtain res w1 where fc: "fetchComments this api aid w = (res, w1)"
      by (cases "fetchComments this api aid w")
    have r1: "sends_only is_read w w1"
      using fetchComments_reads[of w this api aid] fc by simp
    show ?thesis
    proof (cases res)
      case (Inl e)
      then show ?thesis using Some fc r1 by simp
    next
      case (Inr cs)
      have "sends_only is_read w1 (snd (answer_comments_loop this api ans (AList.update aid cs m) w1))"
        by (rule Cons.IH)
      then show ?thesis
        using Some fc Inr sends_only_trans[OF r1] by simp
    qed
  qed
qed

lemma questions_loop_reads:
  "sends_only is_read w (snd (questions_loop this api options qs results w))"
proof (induction qs arbitrary: results w)
  case Nil
  show ?case by (simp add: sends_only_refl)
next
  case (Cons q qs)
  show ?case
  proof (cases "skipped options q")
    case True
    then show ?thesis using Cons.IH by simp
  next
    case False
    obtain res w1 where fa: "fetchAnswers this api (StackOverflowQuestion.question_id q) w = (res, w1)"
      by (cases "fetchAnswers this api (StackOverflowQuestion.question_id q) w")
    have r1: "sends_only is_read w w1"
      using fetchAnswers_reads[of w this api "StackOverflowQuestion.question_id q"] fa by simp
    show ?thesis
    proof (cases res)
      case (Inl e)
      then show ?thesis using False fa r1 by simp
    next
      case (Inr ans)
      show ?thesis
      proof (cases "truthy_bool (search_options.includeComments options)")
        case nc: False
        have "sends_only is_read w1 (snd (questions_loop this api options qs
                 (results @ [\<lparr>SearchResult.question = q, SearchResult.answers = ans, comments = None\<rparr>]) w1))"
          by (rule Cons.IH)
        then show ?thesis
          using False fa Inr nc sends_only_trans[OF r1] by simp
      next
        case wc: True
        obtain cres w2 where fc: "fetchComments this api (StackOverflowQuestion.question_id q) w1 = (cres, w2)"
          by (cases "fetchComments this api (StackOverflowQuestion.question_id q) w1")
        have r2: "sends_only is_read w w2"
          using fetchComments_reads[of w1 this api "StackOverflowQuestion.question_id q"] fc
            sends_only_trans[OF r1] by simp
        show ?thesis
        proof (cases cres)
          case (Inl e)
          then show ?thesis using False fa Inr wc fc r2 by simp
        next
          case qcs: (Inr qcs)
          obtain lres w3 where al: "answer_comments_loop this api ans [] w2 = (lres, w3)"
            by (cases "answer_comments_loop this api ans [] w2")
          have r3: "sends_only is_read w w3"
            using answer_comments_loop_reads[of w2 this api ans "[]"] al sends_only_trans[OF r2] by simp
          show ?thesis
          proof (cases lres)
            case (Inl e)
            then show ?thesis using False fa Inr wc fc qcs al r3 by simp
          next
            case am: (Inr answersMap)
            have "sends_only is_read w3 (snd (questions_loop this api options qs
                 (results @ [\<lparr>SearchResult.question = q, SearchResult.answers = ans,
                     comments = Some \<lparr>SearchResultComments.question = qcs,
                                      SearchResultComments.answers = answersMap\<rparr>\<rparr>]) w3))"
              by (rule Cons.IH)
            then show ?thesis
              using False fa Inr wc fc qcs al am sends_only_trans[OF r3] by simp
          qed
        qed
      qed
    qed
  qed
qed

lemma searchStackOverflow_reads:
  "sends_only is_read w (snd (searchStackOverflow this api query tgs options w))"
proof -
  define req where "req = search_request this query tgs options"
  obtain res w1 where wr: "withRateLimit (fetch (questions_api api) req) 3 w = (res, w1)"
    by (cases "withRateLimit (fetch (questions_api api) req) 3 w")
  have r1: "sends_only is_read w w1"
    using withRateLimit_fetch_sends[of is_read req w "questions_api api" 3] wr
    by (simp add: req_def is_read_def search_request_def)
  have ql: "sends_only is_read w w2" if "questions_loop this api options qs [] w1 = (r, w2)" for qs r w2
    using questions_loop_reads[of w1 this api options qs "[]"] that sends_only_trans[OF r1] by simp
  show ?thesis
    using wr r1 by (auto simp: searchStackOverflow_def req_def intro: ql split: prod.splits sum.splits option.splits)
qed

lemma withRateLimit_fetch_once:
  assumes "endpoint (net w) req = (Inr resp, dt)"
  shows "net (snd (withRateLimit (fetch endpoint req) retries w)) = net w @ [req]"
proof -
  obtain w' where "withRateLimit (fetch endpoint req) retries w = (Inr resp, w')" "net w' = net w @ [req]"
    using withRateLimit_fetch_resolved[of endpoint w req resp dt retries] assms by blast
  then show ?thesis by simp
qed

lemma fetchAnswers_once:
  assumes "never_rejects api"
  shows "net (snd (fetchAnswers this api qid w)) = net w @ [answers_request this qid]"
proof -
  obtain resp dt where "answers_api api (net w) (answers_request this qid) = (Inr resp, dt)"
    using assms unfolding never_rejects_def by blast
  then show ?thesis
    unfolding fetchAnswers_world
    using withRateLimit_fetch_once[of "answers_api api" w "answers_request this qid" resp dt 3] by simp
qed

lemma fetchComments_once:
  assumes "never_rejects api"
  shows "net (snd (fetchComments this api pid w)) = net w @ [comments_request this pid]"
proof -
  obtain resp dt where "comments_api api (net w) (comments_request this pid) = (Inr resp, dt)"
    using assms unfolding never_rejects_def by blast
  then show ?thesis
    unfolding fetchComments_world
    using withRateLimit_fetch_once[of "comments_api api" w "comments_request this pid" resp dt 3] by simp
qed

lemma answer_ids_Cons:
  "answer_ids (a # ans) = (case answer_id a of None \<Rightarrow> answer_ids ans | Some aid \<Rightarrow> aid # answer_ids ans)"
  by (simp add: answer_ids_def List.map_filter_simps split: option.splits)

lemma answer_comments_loop_log:
  assumes "never_rejects api"
  shows "answer_comments_loop this api ans m w = (Inr m', w') \<Longrightarrow>
     net w' = net w @ map (comments_request this) (answer_ids ans) \<and>
     fst ` set m' = fst ` set m \<union> set (answer_ids ans) \<and>
     (distinct (map fst m) \<longrightarrow> distinct (map fst m'))"
proof (induction ans arbitrary: m w)
  case Nil
  then show ?case by (simp add: answer_ids_def List.map_filter_simps)
next
  case (Cons a ans)
  show ?case
  proof (cases "answer_id a")
    case None
    then show ?thesis using Cons by (simp add: answer_ids_Cons)
  next
    case (Some aid)
    obtain res w1 where fc: "fetchComments this api aid w = (res, w1)"
      by (cases "fetchComments this api aid w")
    have n1: "net w1 = net w @ [comments_request this aid]"
      using fetchComments_once[OF assms, of this aid w] fc by simp
    show ?thesis
    proof (cases res)
      case (Inl e)
      then show ?thesis using Cons.prems Some fc by simp
    next
      case (Inr cs)
      have "answer_comments_loop this api ans (AList.update aid cs m) w1 = (Inr m', w')"
        using Cons.prems Some fc Inr by simp
      from Cons.IH[OF this] show ?thesis
        using n1 Some by (auto simp: answer_ids_Cons AList.dom_update AList.distinct_update)
    qed
  qed
qed

lemma questions_loop_questions:
  "questions_loop this api options qs results w = (Inr rs, w') \<Longrightarrow>
   map SearchResult.question rs = map SearchResult.question results @ filter (\<lambda>q. \<not> skipped options q) qs"
proof (induction qs arbitrary: results w)
  case Nil
  then show ?case by simp
next
  case (Cons q qs)
  show ?case
  proof (cases "skipped options q")
    case True
    then show ?thesis using Cons by simp
  next
    case False
    then show ?thesis
      using Cons.prems
      by (auto simp: split: prod.splits sum.splits if_splits dest!: Cons.IH)
  qed
qed

lemma questions_loop_log:
  assumes "never_rejects api" "truthy_bool (search_options.includeComments options)"
  shows "questions_loop this api options qs results w = (Inr rs, w') \<Longrightarrow>
     \<exists>new. rs = results @ new \<and>
       net w' = net w @ concat (map (requests_for this) new) \<and>
       (\<forall>r\<in>set new. well_commented r)"
proof (induction qs arbitrary: results w)
  case Nil
  then show ?case by simp
next
  case (Cons q qs)
  show ?case
  proof (cases "skipped options q")
    case True
    then show ?thesis using Cons by simp
  next
    case False
    let ?qid = "StackOverflowQuestion.question_id q"
    obtain res w1 where fa: "fetchAnswers this api ?qid w = (res, w1)"
      by (cases "fetchAnswers this api ?qid w")
    obtain cres w2 where fc: "fetchComments this api ?qid w1 = (cres, w2)"
      by (cases "fetchComments this api ?qid w1")
    from Cons.prems False fa obtain ans where res: "res = Inr ans"
      by (cases res) auto
    from Cons.prems False fa res fc assms(2) obtain qcs where cres: "cres = Inr qcs"
      by (cases cres) auto
    obtain lres w3 where al: "answer_comments_loop this api ans [] w2 = (lres, w3)"
      by (cases "answer_comments_loop this api ans [] w2")
    from Cons.prems False fa res fc cres al assms(2) obtain am where lres: "lres = Inr am"
      by (cases lres) auto
    define r where "r = \<lparr>SearchResult.question = q, SearchResult.answers = ans,
        comments = Some \<lparr>SearchResultComments.question = qcs, SearchResultComments.answers = am\<rparr>\<rparr>"
    have rest: "questions_loop this api options qs (results @ [r]) w3 = (Inr rs, w')"
      using Cons.prems False fa res fc cres al lres assms(2) by (simp add: r_def)
    have n1: "net w1 = net w @ [answers_request this ?qid]"
      using fetchAnswers_once[OF assms(1), of this ?qid w] fa by simp
    have n2: "net w2 = net w1 @ [comments_request this ?qid]"
      using fetchComments_once[OF assms(1), of this ?qid w1] fc by simp
    have n3: "net w3 = net w2 @ map (comments_request this) (answer_ids ans)"
      and keys: "fst ` set am = set (answer_ids ans)" and dist: "distinct (map fst am)"
      using answer_comments_loop_log[OF assms(1), of this ans "[]" w2 am w3] al lres by simp_all
    have log_r: "net w3 = net w @ requests_for this r"
      by (simp add: n1 n2 n3 requests_for_def r_def)
    have wc: "well_commented r"
      by (simp add: well_commented_def r_def keys dist)
    from Cons.IH[OF rest] obtain new where new: "rs = (results @ [r]) @ new"
        "net w' = net w3 @ concat (map (requests_for this) new)" "\<forall>x\<in>set new. well_commented x"
      by blast
    show ?thesis
      by (rule exI[of _ "r # new"]) (use new log_r wc in simp)
  qed
qed

lemma searchStackOverflow_Inr:
  assumes "searchStackOverflow this api query tgs options w = (Inr rs, w')"
  obtains resp w1 data qs where
    "withRateLimit (fetch (questions_api api) (search_request this query tgs options)) 3 w = (Inr resp, w1)"
    "ok resp" "json resp = Inr data" "items data = Some qs"
    "questions_loop this api options qs [] w1 = (Inr rs, w')"
  using assms
  by (auto simp: searchStackOverflow_def rethrow_def split: prod.splits sum.splits option.splits if_splits thrown.splits)

lemma searchStackOverflow_log:
  assumes "never_rejects api" "truthy_bool (search_options.includeComments options)"
    and "searchStackOverflow this api query tgs options w = (Inr rs, w')"
  shows "net w' = net w @ search_request this query tgs options # concat (map (requests_for this) rs)"
    and "\<forall>r\<in>set rs. well_commented r"
proof -
  let ?req = "search_request this query tgs options"
  obtain resp w1 data qs where wr: "withRateLimit (fetch (questions_api api) ?req) 3 w = (Inr resp, w1)"
    and loop: "questions_loop this api options qs [] w1 = (Inr rs, w')"
    using assms(3) by (rule searchStackOverflow_Inr)
  obtain resp' dt where "questions_api api (net w) ?req = (Inr resp', dt)"
    using assms(1) unfolding never_rejects_def by blast
  then have n1: "net w1 = net w @ [?req]"
    using withRateLimit_fetch_once[of "questions_api api" w ?req resp' dt 3] wr by simp
  from questions_loop_log[OF assms(1,2) loop] obtain new where
    "rs = [] @ new" "net w' = net w1 @ concat (map (requests_for this) new)" "\<forall>r\<in>set new. well_commented r"
    by blast
  then show "net w' = net w @ ?req # concat (map (requests_for this) rs)"
    and "\<forall>r\<in>set rs. well_commented r"
    using n1 by simp_all
qed

lemma answer_ids_all:
  "\<forall>a\<in>set ans. answer_id a \<noteq> None \<Longrightarrow> map Some (answer_ids ans) = map answer_id ans"
  by (induction ans) (auto simp: answer_ids_Cons answer_ids_def List.map_filter_simps split: option.splits)

lemma answer_ids_length:
  "\<forall>a\<in>set ans. answer_id a \<noteq> None \<Longrightarrow> length (answer_ids ans) = length ans"
  using answer_ids_all[of ans] by (metis length_map)

lemma answer_ids_distinct:
  assumes "\<forall>a\<in>set ans. answer_id a \<noteq> None" "distinct (map answer_id ans)"
  shows "distinct (answer_ids ans)"
proof -
  have "distinct (map Some (answer_ids ans))"
    using assms answer_ids_all[of ans] by simp
  then show ?thesis by (simp add: distinct_map)
qed

lemma well_commented_entries:
  assumes "well_commented r" "\<forall>a\<in>set (SearchResult.answers r). answer_id a \<noteq> None"
    "distinct (map answer_id (SearchResult.answers r))"
  shows "\<exists>c. comments r = Some c \<and>
           length (SearchResultComments.answers c) = length (SearchResult.answers r)"
proof -
  obtain c where c: "comments r = Some c" "distinct (map fst (SearchResultComments.answers c))"
      "fst ` set (SearchResultComments.answers c) = set (answer_ids (SearchResult.answers r))"
    using assms(1) by (auto simp: well_commented_def split: option.splits)
  have "length (SearchResultComments.answers c) = card (fst ` set (SearchResultComments.answers c))"
    using distinct_card[of "map fst (SearchResultComments.answers c)"] c(2) by simp
  also have "\<dots> = card (set (answer_ids (SearchResult.answers r)))"
    using c(3) by simp
  also have "\<dots> = length (answer_ids (SearchResult.answers r))"
    using answer_ids_distinct[OF assms(2,3)] by (simp add: distinct_card)
  also have "\<dots> = length (SearchResult.answers r)"
    using assms(2) by (rule answer_ids_length)
  finally show ?thesis using c(1) by blast
qed

lemma requests_for_count:
  "\<forall>r\<in>set rs. \<forall>a\<in>set (SearchResult.answers r). answer_id a \<noteq> None \<Longrightarrow>
   length (concat (map (requests_for this) rs)) = 2 * length rs + (\<Sum>r\<leftarrow>rs. length (SearchResult.answers r))"
  by (induction rs) (simp_all add: requests_for_def answer_ids_length)

text \<open>
  Claim C4, amended. A search with comments included, on a service whose transport never
  fails, that returns the composite results \<open>rs\<close> whose answers all carry an identifier,
  sends exactly 1 request for the search, 1 request for the answers of each question,
  1 request for the comments of each question and 1 request for the comments of each
  answer: \<open>1 + N + N + \<Sum>A\<^sub>i\<close> requests. The comments mapping of a result has exactly
  as many entries as the result has answers when the identifiers of these answers are
  distinct.
\<close>

theorem searchStackOverflow_call_count:
  assumes "never_rejects api"
    and "search_options.includeComments options = Some True"
    and "searchStackOverflow this api query tgs options w = (Inr rs, w')"
    and "\<forall>r\<in>set rs. \<forall>a\<in>set (SearchResult.answers r). answer_id a \<noteq> None"
  shows "length (net w') = length (net w) + 1 + length rs + length rs + (\<Sum>r\<leftarrow>rs. length (SearchResult.answers r))
    \<and> (\<forall>r\<in>set rs. distinct (map answer_id (SearchResult.answers r)) \<longrightarrow>
          (\<exists>c. comments r = Some c \<and>
             length (SearchResultComments.answers c) = length (SearchResult.answers r)))"
proof -
  have tc: "truthy_bool (search_options.includeComments options)"
    using assms(2) by (simp add: truthy_bool_def)
  have log: "net w' = net w @ search_request this query tgs options # concat (map (requests_for this) rs)"
    and wc: "\<forall>r\<in>set rs. well_commented r"
    using searchStackOverflow_log[OF assms(1) tc assms(3)] by simp_all
  have "length (net w') = length (net w) + 1 + length (concat (map (requests_for this) rs))"
    using log by simp
  then have count: "length (net w') = length (net w) + 1 + length rs + length rs
                      + (\<Sum>r\<leftarrow>rs. length (SearchResult.answers r))"
    using requests_for_count[OF assms(4), of this] by simp
  have "\<exists>c. comments r = Some c \<and> length (SearchResultComments.answers c) = length (SearchResult.answers r)"
    if "r \<in> set rs" "distinct (map answer_id (SearchResult.answers r))" for r
    using well_commented_entries[of r] wc assms(4) that by blast
  then show ?thesis using count by blast
qed

theorem searchStackOverflow_call_count_witness:
  "length (net (snd (searchStackOverflow no_credentials
      (canned_remote (Some [sample_question 1 4, sample_question 2 0])
         (Some [sample_answer 11, sample_answer 12]) (Some [sample_comment]))
      ''boom'' None comments_on idle_world))) = 9
   \<and> (\<exists>c. comments (sample_result (sample_question 2 0) [sample_comment]) = Some c \<and>
          length (SearchResultComments.answers c) = 2)"
proof -
  define api where "api = canned_remote (Some [sample_question 1 4, sample_question 2 0])
         (Some [sample_answer 11, sample_answer 12]) (Some [sample_comment])"
  define rs where "rs = [sample_result (sample_question 1 4) [sample_comment],
         sample_result (sample_question 2 0) [sample_comment]]"
  define X where "X = searchStackOverflow no_credentials api ''boom'' None comments_on idle_world"
  have h1: "never_rejects api"
    by (simp add: never_rejects_def api_def canned_remote_def)
  have h2: "search_options.includeComments comments_on = Some True"
    by (simp add: comments_on_def)
  have "fst X = Inr rs"
    unfolding X_def api_def rs_def by code_simp
  then have h3: "searchStackOverflow no_credentials api ''boom'' None comments_on idle_world = (Inr rs, snd X)"
    by (simp add: X_def prod_eq_iff)
  have h4: "\<forall>r\<in>set rs. \<forall>a\<in>set (SearchResult.answers r). answer_id a \<noteq> None"
    by (simp add: rs_def sample_result_def sample_answer_def)
  have d: "distinct (map answer_id (SearchResult.answers (sample_result (sample_question 2 0) [sample_comment])))"
    by (simp add: sample_result_def sample_answer_def)
  have "length (net (snd X)) = length (net idle_world) + 1 + length rs + length rs
          + (\<Sum>r\<leftarrow>rs. length (SearchResult.answers r))
    \<and> (\<forall>r\<in>set rs. distinct (map answer_id (SearchResult.answers r)) \<longrightarrow>
          (\<exists>c. comments r = Some c \<and>
             length (SearchResultComments.answers c) = length (SearchResult.answers r)))"
    using searchStackOverflow_call_count[OF h1 h2 h3 h4] .
  then show ?thesis
    using d unfolding X_def api_def
    by (simp add: rs_def idle_world_def sample_result_def)
qed

text \<open>
  The count of the claim as stated, \<open>1 + \<Sum>A\<^sub>i + N + \<Sum>A\<^sub>i\<close>, fails for one question
  with two answers: 5 requests are sent, not 6.
\<close>

theorem searchStackOverflow_call_count_counterexample:
  "fst (searchStackOverflow no_credentials
          (canned_remote (Some [sample_question 1 4]) (Some [sample_answer 11, sample_answer 12]) (Some []))
          ''boom'' None comments_on idle_world)
     = Inr [sample_result (sample_question 1 4) []]
   \<and> length (SearchResult.answers (sample_result (sample_question 1 4) [])) = 2
   \<and> length (net (snd (searchStackOverflow no_credentials
          (canned_remote (Some [sample_question 1 4]) (Some [sample_answer 11, sample_answer 12]) (Some []))
          ''boom'' None comments_on idle_world))) = 5
   \<and> length (net (snd (searchStackOverflow no_credentials
          (canned_remote (Some [sample_question 1 4]) (Some [sample_answer 11, sample_answer 12]) (Some []))
          ''boom'' None comments_on idle_world))) \<noteq> 1 + 2 + 1 + 2"
  by code_simp

text \<open>
  Claim C8. With the minimum score set to 0, a question of score \<open>-1\<close> is below the
  minimum and should be skipped; the truthiness test of the loop treats 0 as unset and the
  question is kept.
\<close>

theorem minScore_zero_keeps_negative_score:
  "StackOverflowQuestion.score (sample_question 1 (- 1)) < 0
   \<and> fst (searchStackOverflow no_credentials
          (canned_remote (Some [sample_question 1 (- 1)]) (Some []) (Some []))
          ''boom'' None
          \<lparr>search_options.minScore = Some 0, search_options.limit = None,
           search_options.includeComments = None\<rparr> idle_world)
     = Inr [\<lparr>SearchResult.question = sample_question 1 (- 1), SearchResult.answers = [],
             comments = None\<rparr>]"
  by code_simp

text \<open>
  For a minimum that is set and not zero the filter is the one the claim describes, and
  the results keep the order of the search.
\<close>

lemma skipped_nonzero:
  "search_options.minScore options = Some m \<Longrightarrow> m \<noteq> 0 \<Longrightarrow>
   skipped options q \<longleftrightarrow> StackOverflowQuestion.score q < m"
  by (simp add: skipped_def truthy_num_def)

lemma skipped_unset_or_zero:
  "search_options.minScore options = None \<or> search_options.minScore options = Some 0 \<Longrightarrow>
   \<not> skipped options q"
  by (auto simp: skipped_def truthy_num_def)

lemma searchStackOverflow_filter_order:
  assumes "searchStackOverflow this api query tgs options w = (Inr rs, w')"
  shows "\<exists>resp w1 data qs.
           withRateLimit (fetch (questions_api api) (search_request this query tgs options)) 3 w = (Inr resp, w1)
           \<and> json resp = Inr data \<and> items data = Some qs
           \<and> map SearchResult.question rs = filter (\<lambda>q. \<not> skipped options q) qs"
proof -
  obtain resp w1 data qs where
    "withRateLimit (fetch (questions_api api) (search_request this query tgs options)) 3 w = (Inr resp, w1)"
    "json resp = Inr data" "items data = Some qs"
    "questions_loop this api options qs [] w1 = (Inr rs, w')"
    using assms by (rule searchStackOverflow_Inr)
  then show ?thesis
    using questions_loop_questions[of this api options qs "[]" w1 rs w'] by auto
qed

section \<open>Properties of the write policy gate\<close>

lemma sends_only_writes:
  "sends_only is_read w w' \<Longrightarrow> writes (net w') = writes (net w)"
  by (auto simp: sends_only_def writes_def is_read_def list_all_iff)

lemma ensureWriteAccess_missing:
  "\<not> truthy_str (apiKey this) \<or> \<not> truthy_str (accessToken this) \<Longrightarrow>
   ensureWriteAccess this = Some configuration_error"
  by (auto simp: ensureWriteAccess_def)

lemma searchStackOverflow_writes:
  "searchStackOverflow this api query tgs options w = (res, w1) \<Longrightarrow> writes (net w1) = writes (net w)"
  using searchStackOverflow_reads[of w this api query tgs options] sends_only_writes by fastforce

lemma fetchQuestion_writes:
  "fetchQuestion this api qid w = (res, w1) \<Longrightarrow> writes (net w1) = writes (net w)"
  using fetchQuestion_reads[of w this api qid] sends_only_writes by fastforce

lemma handlePostQuestion_search_failed:
  "searchStackOverflow this api (PostQuestionInput.errorSignature input)
     (Some (PostQuestionInput.tags input)) duplicate_search w = (Inl e, w1) \<Longrightarrow>
   handlePostQuestion this api input w = (Inl e, w1)"
  by (simp add: handlePostQuestion_def duplicate_search_def)

lemma handlePostQuestion_duplicate:
  "searchStackOverflow this api (PostQuestionInput.errorSignature input)
     (Some (PostQuestionInput.tags input)) duplicate_search w = (Inr similar, w1) \<Longrightarrow>
   similar \<noteq> [] \<Longrightarrow>
   handlePostQuestion this api input w =
     (Inl (McpError InvalidRequest
            ''Refusing to post: similar questions already exist for the provided errorSignature''), w1)"
  by (simp add: handlePostQuestion_def duplicate_search_def)

lemma handlePostQuestion_no_access:
  "searchStackOverflow this api (PostQuestionInput.errorSignature input)
     (Some (PostQuestionInput.tags input)) duplicate_search w = (Inr [], w1) \<Longrightarrow>
   ensureWriteAccess this = Some e \<Longrightarrow>
   handlePostQuestion this api input w = (Inl e, w1)"
  by (simp add: handlePostQuestion_def duplicate_search_def)

lemma handlePostQuestion_without_credentials:
  assumes "ensureWriteAccess this = Some configuration_error"
  shows "rejected_without_write w (handlePostQuestion this api input w)"
proof -
  obtain res w1 where sr: "searchStackOverflow this api (PostQuestionInput.errorSignature input)
      (Some (PostQuestionInput.tags input)) duplicate_search w = (res, w1)"
    by (cases "searchStackOverflow this api (PostQuestionInput.errorSignature input)
      (Some (PostQuestionInput.tags input)) duplicate_search w")
  have wr: "writes (net w1) = writes (net w)"
    using sr by (rule searchStackOverflow_writes)
  show ?thesis
  proof (cases res)
    case (Inl e)
    then show ?thesis
      using handlePostQuestion_search_failed[of this api input w e w1] sr wr
      by (simp add: rejected_without_write_def)
  next
    case (Inr similar)
    show ?thesis
    proof (cases "similar = []")
      case True
      then show ?thesis
        using handlePostQuestion_no_access[of this api input w w1] sr wr Inr assms
        by (simp add: rejected_without_write_def)
    next
      case False
      then show ?thesis
        using handlePostQuestion_duplicate[of this api input w similar w1] sr wr Inr
        by (simp add: rejected_without_write_def)
    qed
  qed
qed

lemma handlePostQuestion_configuration_error:
  assumes "ensureWriteAccess this = Some configuration_error"
    and "fst (searchStackOverflow this api (PostQuestionInput.errorSignature input)
           (Some (PostQuestionInput.tags input)) duplicate_search w) = Inr []"
  shows "fst (handlePostQuestion this api input w) = Inl configuration_error"
proof -
  obtain w1 where "searchStackOverflow this api (PostQuestionInput.errorSignature input)
      (Some (PostQuestionInput.tags input)) duplicate_search w = (Inr [], w1)"
    using assms(2) by (metis prod.collapse)
  then show ?thesis
    using handlePostQuestion_no_access[of this api input w w1] assms(1) by simp
qed

lemma handlePostSolution_unconfirmed:
  "PostSolutionInput.confirmedResolved input \<noteq> Some True \<Longrightarrow>
   handlePostSolution this api input w =
     (Inl (McpError InvalidRequest ''Refusing to post: confirmedResolved must be true''), w)"
  by (auto simp: handlePostSolution_def truthy_bool_def split: option.splits)

lemma handlePostSolution_no_evidence:
  "PostSolutionInput.confirmedResolved input = Some True \<Longrightarrow>
   PostSolutionInput.evidence input = None \<or> PostSolutionInput.evidence input = Some [] \<Longrightarrow>
   handlePostSolution this api input w =
     (Inl (McpError InvalidParams ''Refusing to post: evidence is required''), w)"
  by (auto simp: handlePostSolution_def truthy_bool_def)

lemma handlePostSolution_checked:
  assumes "PostSolutionInput.confirmedResolved input = Some True"
    and "PostSolutionInput.evidence input = Some (e # es)"
    and "fetchQuestion this api (PostSolutionInput.questionId input) w = (res, w1)"
  shows "res = Inl error \<Longrightarrow> handlePostSolution this api input w = (Inl error, w1)"
    and "res = Inr None \<Longrightarrow>
         handlePostSolution this api input w = (Inl (McpError InvalidRequest ''Question not found''), w1)"
    and "res = Inr (Some q) \<Longrightarrow> truthy_num (accepted_answer_id q) \<or> answer_count q > 0 \<Longrightarrow>
         handlePostSolution this api input w =
           (Inl (McpError InvalidRequest
                  ''Refusing to post: the question already has answers (or an accepted one)''), w1)"
    and "res = Inr (Some q) \<Longrightarrow> \<not> (truthy_num (accepted_answer_id q) \<or> answer_count q > 0) \<Longrightarrow>
         ensureWriteAccess this = Some error \<Longrightarrow>
         handlePostSolution this api input w = (Inl error, w1)"
  using assms by (simp_all add: handlePostSolution_def truthy_bool_def)

lemma truthy_num_nonzero: "x = Some a \<Longrightarrow> a \<noteq> 0 \<Longrightarrow> truthy_num x"
  by (simp add: truthy_num_def)

text \<open>
  \<open>post_solution\<close> is rejected whenever \<open>confirmedResolved\<close> is not true (whatever the
  evidence), whenever the evidence is missing or empty, whenever fetching the target
  question does not yield a question (the fetch fails or finds nothing), and whenever the
  question has an accepted answer identifier other than 0 or a positive answer count. In
  each case the handler throws and no POST request is sent.
\<close>

lemma handlePostSolution_rejections:
  "(PostSolutionInput.confirmedResolved input \<noteq> Some True \<longrightarrow>
      rejected_without_write w (handlePostSolution this api input w))
   \<and> (PostSolutionInput.evidence input = None \<or> PostSolutionInput.evidence input = Some [] \<longrightarrow>
      rejected_without_write w (handlePostSolution this api input w))
   \<and> ((\<forall>found. fst (fetchQuestion this api (PostSolutionInput.questionId input) w) \<noteq> Inr (Some found)) \<longrightarrow>
      rejected_without_write w (handlePostSolution this api input w))
   \<and> (fst (fetchQuestion this api (PostSolutionInput.questionId input) w) = Inr (Some q) \<and>
      ((\<exists>a. accepted_answer_id q = Some a \<and> a \<noteq> 0) \<or> answer_count q > 0) \<longrightarrow>
      rejected_without_write w (handlePostSolution this api input w))"
proof -
  let ?R = "rejected_without_write w (handlePostSolution this api input w)"
  obtain res w1 where fq: "fetchQuestion this api (PostSolutionInput.questionId input) w = (res, w1)"
    by (cases "fetchQuestion this api (PostSolutionInput.questionId input) w")
  have wr: "writes (net w1) = writes (net w)"
    using fq by (rule fetchQuestion_writes)
  consider (unconfirmed) "PostSolutionInput.confirmedResolved input \<noteq> Some True"
    | (no_evidence) "PostSolutionInput.confirmedResolved input = Some True"
        "PostSolutionInput.evidence input = None \<or> PostSolutionInput.evidence input = Some []"
    | (checked) e es where "PostSolutionInput.confirmedResolved input = Some True"
        "PostSolutionInput.evidence input = Some (e # es)"
    by (metis list.exhaust option.exhaust)
  then show ?thesis
  proof cases
    case unconfirmed
    then have ?R
      using handlePostSolution_unconfirmed[of input this api w] by (simp add: rejected_without_write_def)
    then show ?thesis by blast
  next
    case no_evidence
    then have ?R
      using handlePostSolution_no_evidence[of input this api w] by (simp add: rejected_without_write_def)
    then show ?thesis by blast
  next
    case checked
    note c = handlePostSolution_checked[OF checked fq]
    have failed: ?R if "res = Inl error" for error
      using c(1)[OF that] wr by (simp add: rejected_without_write_def)
    have missing: ?R if "res = Inr None"
      using c(2)[OF that] wr by (simp add: rejected_without_write_def)
    have answered: ?R if "res = Inr (Some q)" "truthy_num (accepted_answer_id q) \<or> answer_count q > 0"
      using c(3)[OF that] wr by (simp add: rejected_without_write_def)
    have not_found: ?R
      if nf: "\<forall>found. fst (fetchQuestion this api (PostSolutionInput.questionId input) w) \<noteq> Inr (Some found)"
    proof (cases res)
      case (Inl error)
      then show ?thesis by (rule failed)
    next
      case (Inr found)
      then have "found = None" using nf fq by (cases found) auto
      then show ?thesis using Inr missing by simp
    qed
    have has_answers: ?R
      if h: "fst (fetchQuestion this api (PostSolutionInput.questionId input) w) = Inr (Some q) \<and>
        ((\<exists>a. accepted_answer_id q = Some a \<and> a \<noteq> 0) \<or> answer_count q > 0)"
    proof -
      have "res = Inr (Some q)" using h fq by simp
      moreover have "truthy_num (accepted_answer_id q) \<or> answer_count q > 0"
        using h truthy_num_nonzero by blast
      ultimately show ?thesis by (rule answered)
    qed
    show ?thesis
      using checked not_found has_answers by (intro conjI impI) simp_all
  qed
qed

text \<open>One rejection of each kind, on the test doubles.\<close>

lemma handlePostSolution_rejections_example:
  "rejected_without_write idle_world
     (handlePostSolution full_credentials busy_remote (sample_solution (Some False) (Some [''log''])) idle_world)
   \<and> rejected_without_write idle_world
     (handlePostSolution full_credentials busy_remote (sample_solution (Some True) (Some [])) idle_world)
   \<and> rejected_without_write idle_world
     (handlePostSolution full_credentials quiet_remote (sample_solution (Some True) (Some [''log''])) idle_world)
   \<and> rejected_without_write idle_world
     (handlePostSolution full_credentials answered_remote (sample_solution (Some True) (Some [''log''])) idle_world)"
proof -
  let ?ok = "sample_solution (Some True) (Some [''log''])"
  let ?q = "(sample_question 1 4)\<lparr>answer_count := 2\<rparr>"
  have h1: "PostSolutionInput.confirmedResolved (sample_solution (Some False) (Some [''log''])) \<noteq> Some True"
    by (simp add: sample_solution_def)
  have h2: "PostSolutionInput.evidence (sample_solution (Some True) (Some [])) = None
          \<or> PostSolutionInput.evidence (sample_solution (Some True) (Some [])) = Some []"
    by (simp add: sample_solution_def)
  have "fst (fetchQuestion full_credentials quiet_remote (PostSolutionInput.questionId ?ok) idle_world) = Inr None"
    by code_simp
  then have h3: "\<forall>found. fst (fetchQuestion full_credentials quiet_remote (PostSolutionInput.questionId ?ok) idle_world)
          \<noteq> Inr (Some found)"
    by simp
  have h4: "fst (fetchQuestion full_credentials answered_remote (PostSolutionInput.questionId ?ok) idle_world)
          = Inr (Some ?q) \<and>
        ((\<exists>a. accepted_answer_id ?q = Some a \<and> a \<noteq> 0) \<or> answer_count ?q > 0)"
  proof
    show "fst (fetchQuestion full_credentials answered_remote (PostSolutionInput.questionId ?ok) idle_world)
          = Inr (Some ?q)"
      by code_simp
    show "(\<exists>a. accepted_answer_id ?q = Some a \<and> a \<noteq> 0) \<or> answer_count ?q > 0"
      by simp
  qed
  show ?thesis
    using handlePostSolution_rejections[of "sample_solution (Some False) (Some [''log''])" idle_world
        full_credentials busy_remote ?q]
      handlePostSolution_rejections[of "sample_solution (Some True) (Some [])" idle_world
        full_credentials busy_remote ?q]
      handlePostSolution_rejections[of ?ok idle_world full_credentials quiet_remote ?q]
      handlePostSolution_rejections[of ?ok idle_world full_credentials answered_remote ?q]
      h1 h2 h3 h4
    by blast
qed


lemma handleThumbsUp_no_access:
  "ensureWriteAccess this = Some error \<Longrightarrow> ThumbsUpInput.confirmedFixed input = Some True \<Longrightarrow>
   handleThumbsUp this api input w = (Inl error, w)"
  by (simp add: handleThumbsUp_def truthy_bool_def)

lemma handleThumbsUp_without_credentials:
  assumes "ensureWriteAccess this = Some configuration_error"
  shows "rejected_without_write w (handleThumbsUp this api input w)"
  using assms by (simp add: handleThumbsUp_def rejected_without_write_def)

lemma handleCommentSolution_checked:
  assumes "fetchQuestion this api (CommentSolutionInput.questionId input) w = (res, w1)"
  shows "res = Inl error \<Longrightarrow> handleCommentSolution this api input w = (Inl error, w1)"
    and "res = Inr None \<Longrightarrow>
         handleCommentSolution this api input w = (Inl (McpError InvalidRequest ''Question not found''), w1)"
    and "res = Inr (Some q) \<Longrightarrow> truthy_num (accepted_answer_id q) \<Longrightarrow>
         handleCommentSolution this api input w =
           (Inl (McpError InvalidRequest ''Refusing to comment: question already has an accepted answer''), w1)"
    and "res = Inr (Some q) \<Longrightarrow> \<not> truthy_num (accepted_answer_id q) \<Longrightarrow>
         ensureWriteAccess this = Some error \<Longrightarrow>
         handleCommentSolution this api input w = (Inl error, w1)"
  using assms by (simp_all add: handleCommentSolution_def)

lemma handleCommentSolution_without_credentials:
  assumes "ensureWriteAccess this = Some configuration_error"
  shows "rejected_without_write w (handleCommentSolution this api input w)"
proof -
  obtain res w1 where fq: "fetchQuestion this api (CommentSolutionInput.questionId input) w = (res, w1)"
    by (cases "fetchQuestion this api (CommentSolutionInput.questionId input) w")
  have wr: "writes (net w1) = writes (net w)"
    using fq by (rule fetchQuestion_writes)
  note c = handleCommentSolution_checked[OF fq]
  show ?thesis
  proof (cases res)
    case (Inl error)
    then show ?thesis using c(1)[of error] wr by (simp add: rejected_without_write_def)
  next
    case (Inr found)
    show ?thesis
    proof (cases found)
      case None
      then show ?thesis using c(2) Inr wr by (simp add: rejected_without_write_def)
    next
      case (Some q)
      then show ?thesis
        using c(3)[of q] c(4)[of q configuration_error] Inr wr assms
        by (cases "truthy_num (accepted_answer_id q)") (simp_all add: rejected_without_write_def)
    qed
  qed
qed

lemma handlePostSolution_without_credentials:
  assumes "ensureWriteAccess this = Some configuration_error"
  shows "rejected_without_write w (handlePostSolution this api input w)"
proof -
  obtain res w1 where fq: "fetchQuestion this api (PostSolutionInput.questionId input) w = (res, w1)"
    by (cases "fetchQuestion this api (PostSolutionInput.questionId input) w")
  have wr: "writes (net w1) = writes (net w)"
    using fq by (rule fetchQuestion_writes)
  consider (unconfirmed) "PostSolutionInput.confirmedResolved input \<noteq> Some True"
    | (no_evidence) "PostSolutionInput.confirmedResolved input = Some True"
        "PostSolutionInput.evidence input = None \<or> PostSolutionInput.evidence input = Some []"
    | (checked) e es where "PostSolutionInput.confirmedResolved input = Some True"
        "PostSolutionInput.evidence input = Some (e # es)"
    by (metis list.exhaust option.exhaust)
  then show ?thesis
  proof cases
    case unconfirmed
    then show ?thesis
      using handlePostSolution_unconfirmed[of input this api w] by (simp add: rejected_without_write_def)
  next
    case no_evidence
    then show ?thesis
      using handlePostSolution_no_evidence[of input this api w] by (simp add: rejected_without_write_def)
  next
    case checked
    note c = handlePostSolution_checked[OF checked fq]
    show ?thesis
    proof (cases res)
      case (Inl error)
      then show ?thesis using c(1)[of error] wr by (simp add: rejected_without_write_def)
    next
      case (Inr found)
      show ?thesis
      proof (cases found)
        case None
        then show ?thesis using c(2) Inr wr by (simp add: rejected_without_write_def)
      next
        case (Some q)
        then show ?thesis
          using c(3)[of q] c(4)[of q configuration_error] Inr wr assms
          by (cases "truthy_num (accepted_answer_id q) \<or> answer_count q > 0")
             (simp_all add: rejected_without_write_def)
      qed
    qed
  qed
qed

text \<open>
  Claim C1, amended. When the API key or the access token is absent (or empty), no write
  operation ever sends a POST request, and each of them fails. \<open>thumbs_up\<close> with
  \<open>confirmedFixed\<close> fails with the configuration error before any network call. The other
  three look at the credentials only after their policy checks, which are network reads:
  \<open>post_question\<close> fails with the configuration error once its duplicate search has
  returned nothing, \<open>post_solution\<close> and \<open>comment_solution\<close> once the fetched question
  has passed their checks.
\<close>

theorem write_operations_without_credentials:
  assumes "\<not> truthy_str (apiKey this) \<or> \<not> truthy_str (accessToken this)"
  shows "rejected_without_write w (handlePostQuestion this api pq w)
    \<and> rejected_without_write w (handlePostSolution this api ps w)
    \<and> rejected_without_write w (handleThumbsUp this api tu w)
    \<and> rejected_without_write w (handleCommentSolution this api cs w)
    \<and> (ThumbsUpInput.confirmedFixed tu = Some True \<longrightarrow>
          handleThumbsUp this api tu w = (Inl configuration_error, w))
    \<and> (fst (searchStackOverflow this api (PostQuestionInput.errorSignature pq)
               (Some (PostQuestionInput.tags pq)) duplicate_search w) = Inr [] \<longrightarrow>
          fst (handlePostQuestion this api pq w) = Inl configuration_error)
    \<and> (PostSolutionInput.confirmedResolved ps = Some True \<and>
        PostSolutionInput.evidence ps = Some (e # es) \<and>
        fst (fetchQuestion this api (PostSolutionInput.questionId ps) w) = Inr (Some q) \<and>
        \<not> truthy_num (accepted_answer_id q) \<and> answer_count q \<le> 0 \<longrightarrow>
          fst (handlePostSolution this api ps w) = Inl configuration_error)
    \<and> (fst (fetchQuestion this api (CommentSolutionInput.questionId cs) w) = Inr (Some q') \<and>
        \<not> truthy_num (accepted_answer_id q') \<longrightarrow>
          fst (handleCommentSolution this api cs w) = Inl configuration_error)"
proof -
  have na: "ensureWriteAccess this = Some configuration_error"
    using assms by (rule ensureWriteAccess_missing)
  have solution: "fst (handlePostSolution this api ps w) = Inl configuration_error"
    if h: "PostSolutionInput.confirmedResolved ps = Some True \<and>
        PostSolutionInput.evidence ps = Some (e # es) \<and>
        fst (fetchQuestion this api (PostSolutionInput.questionId ps) w) = Inr (Some q) \<and>
        \<not> truthy_num (accepted_answer_id q) \<and> answer_count q \<le> 0"
  proof -
    obtain w1 where fq: "fetchQuestion this api (PostSolutionInput.questionId ps) w = (Inr (Some q), w1)"
      using h by (metis prod.collapse)
    have "\<not> (truthy_num (accepted_answer_id q) \<or> answer_count q > 0)"
      using h by simp
    then show ?thesis
      using handlePostSolution_checked(4)[of ps e es this api w "Inr (Some q)" w1 q configuration_error]
        h fq na by simp
  qed
  have remark: "fst (handleCommentSolution this api cs w) = Inl configuration_error"
    if h: "fst (fetchQuestion this api (CommentSolutionInput.questionId cs) w) = Inr (Some q') \<and>
        \<not> truthy_num (accepted_answer_id q')"
  proof -
    obtain w1 where fq: "fetchQuestion this api (CommentSolutionInput.questionId cs) w = (Inr (Some q'), w1)"
      using h by (metis prod.collapse)
    show ?thesis
      using handleCommentSolution_checked(4)[OF fq, of q' configuration_error] h na by simp
  qed
  show ?thesis
    using handlePostQuestion_without_credentials[OF na, of w api pq]
      handlePostSolution_without_credentials[OF na, of w api ps]
      handleThumbsUp_without_credentials[OF na, of w api tu]
      handleCommentSolution_without_credentials[OF na, of w api cs]
      handleThumbsUp_no_access[OF na, of tu api w]
      handlePostQuestion_configuration_error[OF na, of api pq w]
      solution remark
    by blast
qed

text \<open>
  Claim C10. A call of \<open>thumbs_up\<close> whose \<open>postId\<close> is 0, or of \<open>post_solution\<close> or
  \<open>comment_solution\<close> whose \<open>questionId\<close> is 0, is rejected by the dispatcher with an
  \<open>InvalidParams\<close> error and the state is left as it was: the handler does not run,
  because 0 is falsy.
\<close>

theorem callTool_zero_id_rejected:
  "(tool_arguments.postId args = Some 0 \<longrightarrow>
      callTool this api ''thumbs_up'' (Some args) w = (Inl (McpError InvalidParams ''postId is required''), w))
   \<and> (tool_arguments.questionId args = Some 0 \<longrightarrow>
      callTool this api ''post_solution'' (Some args) w
        = (Inl (McpError InvalidParams ''questionId and body are required''), w)
      \<and> callTool this api ''comment_solution'' (Some args) w
        = (Inl (McpError InvalidParams ''questionId and body are required''), w))"
  by (simp add: callTool_def truthy_num_def)

theorem write_operations_without_credentials_witness:
  "rejected_without_write idle_world
     (handlePostQuestion no_credentials quiet_remote (sample_post [''a'', ''b'', ''c'']) idle_world)
   \<and> handleThumbsUp no_credentials quiet_remote sample_upvote idle_world = (Inl configuration_error, idle_world)
   \<and> fst (handlePostQuestion no_credentials quiet_remote (sample_post [''a'', ''b'', ''c'']) idle_world)
       = Inl configuration_error
   \<and> fst (handlePostSolution no_credentials busy_remote (sample_solution (Some True) (Some [''log''])) idle_world)
       = Inl configuration_error
   \<and> fst (handleCommentSolution no_credentials busy_remote sample_remark idle_world)
       = Inl configuration_error"
proof -
  let ?pq = "sample_post [''a'', ''b'', ''c'']"
  let ?ps = "sample_solution (Some True) (Some [''log''])"
  have h0: "\<not> truthy_str (apiKey no_credentials) \<or> \<not> truthy_str (accessToken no_credentials)"
    by (simp add: no_credentials_def truthy_str_def)
  have h1: "ThumbsUpInput.confirmedFixed sample_upvote = Some True"
    by (simp add: sample_upvote_def)
  have h2: "fst (searchStackOverflow no_credentials quiet_remote (PostQuestionInput.errorSignature ?pq)
               (Some (PostQuestionInput.tags ?pq)) duplicate_search idle_world) = Inr []"
    by code_simp
  have h3: "PostSolutionInput.confirmedResolved ?ps = Some True \<and>
        PostSolutionInput.evidence ?ps = Some (''log'' # []) \<and>
        fst (fetchQuestion no_credentials busy_remote (PostSolutionInput.questionId ?ps) idle_world)
          = Inr (Some (sample_question 1 4)) \<and>
        \<not> truthy_num (accepted_answer_id (sample_question 1 4)) \<and> answer_count (sample_question 1 4) \<le> 0"
    by code_simp
  have h4: "fst (fetchQuestion no_credentials busy_remote (CommentSolutionInput.questionId sample_remark) idle_world)
          = Inr (Some (sample_question 1 4)) \<and>
        \<not> truthy_num (accepted_answer_id (sample_question 1 4))"
    by code_simp
  show ?thesis
    using write_operations_without_credentials[OF h0, of idle_world quiet_remote ?pq ?ps sample_upvote
        sample_remark "''log''" "[]" "sample_question 1 4" "sample_question 1 4"]
      write_operations_without_credentials[OF h0, of idle_world busy_remote ?pq ?ps sample_upvote
        sample_remark "''log''" "[]" "sample_question 1 4" "sample_question 1 4"]
      h1 h2 h3 h4
    by blast
qed

text \<open>
  The claim as stated fails for \<open>post_question\<close>: without credentials, the duplicate
  search is sent before the configuration error is raised.
\<close>

theorem write_operations_without_credentials_counterexample:
  "fst (handlePostQuestion no_credentials quiet_remote (sample_post [''a'', ''b'', ''c'']) idle_world)
     = Inl configuration_error
   \<and> map http_method (net (snd (handlePostQuestion no_credentials quiet_remote
          (sample_post [''a'', ''b'', ''c'']) idle_world))) = [GET]
   \<and> net (snd (handlePostQuestion no_credentials quiet_remote
          (sample_post [''a'', ''b'', ''c'']) idle_world)) \<noteq> net idle_world"
  by code_simp

theorem callTool_zero_id_rejected_witness:
  "callTool full_credentials quiet_remote ''thumbs_up'' (Some zero_id_arguments) idle_world
     = (Inl (McpError InvalidParams ''postId is required''), idle_world)
   \<and> callTool full_credentials quiet_remote ''post_solution'' (Some zero_id_arguments) idle_world
     = (Inl (McpError InvalidParams ''questionId and body are required''), idle_world)
   \<and> callTool full_credentials quiet_remote ''comment_solution'' (Some zero_id_arguments) idle_world
     = (Inl (McpError InvalidParams ''questionId and body are required''), idle_world)"
proof -
  have "tool_arguments.postId zero_id_arguments = Some 0"
    and "tool_arguments.questionId zero_id_arguments = Some 0"
    by (simp_all add: zero_id_arguments_def)
  then show ?thesis
    using callTool_zero_id_rejected[of zero_id_arguments full_credentials quiet_remote idle_world]
    by blast
qed

text \<open>
  Claim C5. The tool's own description asks for at least 3 distinct approaches; the
  dispatcher counts the strings without comparing them. A call with the same approach
  written three times is not rejected: the duplicate search is sent and, no duplicate
  being found, the question is posted.
\<close>

theorem post_question_repeated_approach_accepted:
  "length (remdups [''restart'', ''restart'', ''restart'']) = 1
   \<and> \<not> isl (fst (callTool full_credentials quiet_remote ''post_question''
                 (Some (post_arguments [''restart'', ''restart'', ''restart''])) idle_world))
   \<and> map http_method (net (snd (callTool full_credentials quiet_remote ''post_question''
                 (Some (post_arguments [''restart'', ''restart'', ''restart''])) idle_world))) = [GET, POST]"
  by code_simp

theorem post_question_repeated_approach_accepted_witness:
  "writes (net (snd (callTool full_credentials quiet_remote ''post_question''
                 (Some (post_arguments [''restart'', ''restart'', ''restart''])) idle_world))) \<noteq> []"
proof -
  have "map http_method (writes (net (snd (callTool full_credentials quiet_remote ''post_question''
                 (Some (post_arguments [''restart'', ''restart'', ''restart''])) idle_world))))
        = filter (\<lambda>m. m = POST) (map http_method (net (snd (callTool full_credentials quiet_remote
                 ''post_question'' (Some (post_arguments [''restart'', ''restart'', ''restart''])) idle_world))))"
    by (simp add: writes_def filter_map comp_def)
  then show ?thesis
    using post_question_repeated_approach_accepted by auto
qed

text \<open>
  The rest of the claim holds: fewer than 3 approaches are rejected by the dispatcher
  with the state unchanged, and a duplicate search that returns a result makes the
  handler throw without sending a POST request.
\<close>

lemma callTool_post_question_too_few:
  "tool_arguments.triedApproaches args = Some approaches \<Longrightarrow> length approaches < 3 \<Longrightarrow>
   \<exists>msg. callTool this api ''post_question'' (Some args) w = (Inl (McpError InvalidParams msg), w)"
  by (simp add: callTool_def)

lemma handlePostQuestion_duplicate_no_write:
  assumes "searchStackOverflow this api (PostQuestionInput.errorSignature input)
     (Some (PostQuestionInput.tags input)) duplicate_search w = (Inr similar, w1)" "similar \<noteq> []"
  shows "rejected_without_write w (handlePostQuestion this api input w)"
  using handlePostQuestion_duplicate[OF assms] searchStackOverflow_writes[OF assms(1)]
  by (simp add: rejected_without_write_def)

lemma duplicate_search_request:
  "params (search_request this signature (Some tgs) duplicate_search)
     = [(''site'', ''stackoverflow''), (''sort'', ''votes''), (''order'', ''desc''),
        (''filter'', DEFAULT_FILTER), (''q'', signature), (''tagged'', join '';'' tgs),
        (''pagesize'', ''3'')] @ auth_params this"
proof -
  have "toString 3 = ''3''" by code_simp
  then show ?thesis
    by (simp add: search_request_def duplicate_search_def truthy_num_def template_num_def)
qed

section \<open>Properties of the JSON text and of the formatter\<close>

lemma skip_ws_prefix: "list_all is_ws pre \<Longrightarrow> skip_ws (pre @ s) = skip_ws s"
  by (induction pre) (simp_all add: skip_ws_def)

lemma skip_ws_start: "\<not> is_ws c \<Longrightarrow> skip_ws (c # s) = c # s"
  by (simp add: skip_ws_def)

lemma digits_not_empty: "digits n \<noteq> []"
  by (subst digits.simps) simp

lemma is_digit_char_of: "(d::nat) < 10 \<Longrightarrow> is_digit (char_of (48 + d))"
  by (simp add: is_digit_def)

lemma digit_value_char_of: "(d::nat) < 10 \<Longrightarrow> digit_value (char_of (48 + d)) = d"
  by (simp add: digit_value_def)

lemma digits_all: "list_all is_digit (digits n)"
proof (induction n rule: digits.induct)
  case (1 n)
  show ?case
  proof (cases "n < 10")
    case True
    then show ?thesis by (subst digits.simps) (simp add: is_digit_char_of)
  next
    case False
    then show ?thesis
      using 1 by (subst digits.simps) (simp add: is_digit_char_of)
  qed
qed

lemma read_digits_append:
  "list_all is_digit ds \<Longrightarrow> read_digits acc (ds @ rest) = read_digits (foldl (\<lambda>a c. 10 * a + digit_value c) acc ds) rest"
  by (induction ds arbitrary: acc) simp_all

lemma digits_value: "foldl (\<lambda>a c. 10 * a + digit_value c) acc (digits n) = acc * 10 ^ length (digits n) + n"
proof (induction n arbitrary: acc rule: digits.induct)
  case (1 n)
  show ?case
  proof (cases "n < 10")
    case True
    then show ?thesis by (subst (1 2) digits.simps) (simp add: digit_value_char_of)
  next
    case False
    have "foldl (\<lambda>a c. 10 * a + digit_value c) acc (digits n)
          = 10 * (acc * 10 ^ length (digits (n div 10)) + n div 10) + n mod 10"
      using False 1[OF False, of acc] by (subst digits.simps) (simp add: digit_value_char_of)
    also have "\<dots> = acc * 10 ^ length (digits n) + n"
      using False by (subst (2) digits.simps) (simp add: algebra_simps)
    finally show ?thesis .
  qed
qed

lemma digits_leading:
  "\<exists>c cs. digits n = c # cs \<and> is_digit c \<and> (c = CHR ''0'' \<longrightarrow> n = 0 \<and> cs = [])"
proof (induction n rule: digits.induct)
  case (1 n)
  show ?case
  proof (cases "n < 10")
    case True
    have "char_of (48 + n) = CHR ''0'' \<Longrightarrow> n = 0"
    proof -
      assume "char_of (48 + n) = CHR ''0''"
      then have "(of_char (char_of (48 + n) :: char) :: nat) = of_char (CHR ''0'')" by simp
      then show "n = 0" using True by simp
    qed
    then show ?thesis
      using True by (subst digits.simps) (simp add: is_digit_char_of)
  next
    case False
    then have pos: "n div 10 > 0" by simp
    obtain c cs where d: "digits (n div 10) = c # cs" "is_digit c" "c = CHR ''0'' \<longrightarrow> n div 10 = 0 \<and> cs = []"
      using 1[OF False] by blast
    have "c \<noteq> CHR ''0''" using d(3) pos by auto
    then show ?thesis
      using False d by (subst digits.simps) simp
  qed
qed

lemma delimited_cases:
  assumes "delimited rest"
  obtains "rest = []" | cs where "rest = CHR '','' # cs" | cs where "rest = CHR 0x0A # cs"
  using assms by (auto simp: delimited_def split: list.splits)

lemma read_digits_stop: "delimited rest \<Longrightarrow> read_digits acc rest = (acc, rest)"
  by (erule delimited_cases) (simp_all add: is_digit_def)

lemma read_natural_digits:
  assumes "delimited rest"
  shows "read_natural (digits n @ rest) = Some (n, rest)"
proof -
  obtain c cs where d: "digits n = c # cs" "is_digit c" "c = CHR ''0'' \<longrightarrow> n = 0 \<and> cs = []"
    using digits_leading by blast
  show ?thesis
  proof (cases "c = CHR ''0''")
    case True
    then show ?thesis using d by (simp add: read_natural_def)
  next
    case False
    have "read_digits 0 (digits n @ rest) = (n, rest)"
      using read_digits_append[OF digits_all, of 0 n rest] digits_value[of 0 n] read_digits_stop[OF assms]
      by simp
    then show ?thesis
      using False d(1,2) by (simp add: read_natural_def)
  qed
qed

lemma read_integer_toString:
  assumes "delimited rest"
  shows "read_integer (toString i @ rest) = Some (i, rest)"
proof (cases "i < 0")
  case True
  then show ?thesis
    using read_natural_digits[OF assms, of "nat (- i)"] by (simp add: read_integer_def toString_def)
next
  case False
  obtain c cs where d: "digits (nat i) = c # cs" "is_digit c"
    using digits_leading by blast
  have "c \<noteq> CHR ''-''" using d(2) by (auto simp: is_digit_def)
  then show ?thesis
    using False read_natural_digits[OF assms, of "nat i"] d(1)
    by (simp add: read_integer_def toString_def)
qed

lemma read_number_toString:
  assumes "delimited rest"
  shows "read_number (toString i @ rest) = Some (i, rest)"
  using assms read_integer_toString[OF assms, of i]
  by (auto simp: read_number_def elim!: delimited_cases)

lemma toString_first:
  "\<exists>c cs. toString i = c # cs \<and> (c = CHR ''-'' \<or> is_digit c)"
proof -
  obtain c cs where "digits (nat i) = c # cs" "is_digit c"
    using digits_leading by blast
  then show ?thesis by (simp add: toString_def)
qed

lemma hex_value_digit: "d < 16 \<Longrightarrow> hex_value (hex_digit d) = Some d"
  by (auto simp: hex_value_def hex_digit_def Let_def)

lemma char_of_of_char: "char_of (of_char c :: nat) = c"
  by simp

lemma code_unit_control:
  assumes "(of_char c :: nat) < 32"
  shows "code_unit (CHR ''0'') (CHR ''0'') (hex_digit (of_char c div 16)) (hex_digit (of_char c mod 16)) = Some c"
proof -
  let ?n = "of_char c :: nat"
  have a: "hex_value (hex_digit (?n div 16)) = Some (?n div 16)"
    using assms by (intro hex_value_digit) simp
  have b: "hex_value (hex_digit (?n mod 16)) = Some (?n mod 16)"
    by (intro hex_value_digit) simp
  have z: "hex_value (CHR ''0'') = Some 0" by (simp add: hex_value_def)
  have "?n div 16 * 16 + ?n mod 16 = ?n" by simp
  then show ?thesis using assms by (simp add: code_unit_def a b z)
qed

lemma char_by_code: "(of_char c :: nat) = of_char d \<Longrightarrow> c = d"
  by simp

lemma read_chars_quote_char:
  "read_chars (quote_char c @ t) = map_option (\<lambda>(s, r). (c # s, r)) (read_chars t)"
proof -
  let ?n = "of_char c :: nat"
  consider (special) "c \<in> {CHR 0x08, CHR 0x09, CHR 0x0A, CHR 0x0C, CHR 0x0D, CHR 0x22, CHR 0x5C}"
    | (control) "?n < 32" "?n \<notin> {8, 9, 10, 12, 13, 34, 92}"
    | (plain) "?n \<ge> 32" "?n \<noteq> 34" "?n \<noteq> 92"
    using char_by_code[of c "CHR 0x08"] char_by_code[of c "CHR 0x09"] char_by_code[of c "CHR 0x0A"]
      char_by_code[of c "CHR 0x0C"] char_by_code[of c "CHR 0x0D"] char_by_code[of c "CHR 0x22"]
      char_by_code[of c "CHR 0x5C"]
    by (cases "?n < 32") auto
  then show ?thesis
  proof cases
    case special
    then show ?thesis
      by (auto simp: quote_char_def Let_def unescape_def)
  next
    case control
    then show ?thesis
      using code_unit_control[of c] by (simp add: quote_char_def Let_def)
  next
    case plain
    then have "c \<noteq> CHR 0x22" "c \<noteq> CHR 0x5C" by auto
    then show ?thesis using plain by (simp add: quote_char_def Let_def)
  qed
qed

lemma read_chars_quoted:
  "read_chars (concat (map quote_char s) @ CHR 0x22 # rest) = Some (s, rest)"
  by (induction s) (simp_all add: read_chars_quote_char)

lemma opens_value_skip: "opens_value s \<Longrightarrow> skip_ws (s @ t) = s @ t"
  by (cases s) (simp_all add: opens_value_def skip_ws_def)

lemma opens_value_append: "opens_value s \<Longrightarrow> opens_value (s @ t)"
  by (cases s) (simp_all add: opens_value_def)

lemma is_digit_opens: "is_digit c \<Longrightarrow> \<not> is_ws c \<and> c \<noteq> CHR '']'' \<and> c \<noteq> CHR ''}'' \<and> c \<noteq> CHR '',''"
  by (auto simp: is_digit_def is_ws_def)

lemma serialized_opens: "opens_value (SerializeJSONProperty indent v)"
proof (cases v)
  case (JNumber i)
  obtain c cs where "toString i = c # cs" "c = CHR ''-'' \<or> is_digit c"
    using toString_first by blast
  then show ?thesis
    using JNumber is_digit_opens[of c] by (auto simp: opens_value_def is_ws_def)
qed (auto simp: opens_value_def is_ws_def QuoteJSONString_def)

lemma parse_value_ws: "list_all is_ws pre \<Longrightarrow> parse_value fuel (pre @ s) = parse_value fuel s"
  by (cases fuel) (simp_all add: skip_ws_prefix)

lemma parse_elements_ws: "list_all is_ws pre \<Longrightarrow> parse_elements fuel (pre @ s) = parse_elements fuel s"
  by (cases fuel) (simp_all add: parse_value_ws)

lemma parse_members_ws: "list_all is_ws pre \<Longrightarrow> parse_members fuel (pre @ s) = parse_members fuel s"
  by (cases fuel) (simp_all add: skip_ws_prefix)

lemma line_break_ws: "list_all is_ws line_break"
  by (simp add: line_break_def is_ws_def)

lemma gap_ws: "list_all is_ws gap"
  by (simp add: gap_def is_ws_def)

lemma parse_elements_joined:
  assumes IH: "\<And>x fuel rest. x \<in> set xs \<Longrightarrow> delimited rest \<Longrightarrow> need x \<le> fuel \<Longrightarrow>
                 parse_value fuel (SerializeJSONProperty deeper x @ rest) = Some (x, rest)"
    and ws: "list_all is_ws indent" "list_all is_ws deeper"
  shows "xs \<noteq> [] \<Longrightarrow> (\<Sum>x\<leftarrow>xs. Suc (need x)) \<le> fuel \<Longrightarrow>
     parse_elements fuel
       (join ('','' @ line_break @ deeper) (map (SerializeJSONProperty deeper) xs)
        @ line_break @ indent @ '']'' @ rest) = Some (xs, rest)"
  using IH
proof (induction xs arbitrary: fuel)
  case Nil
  then show ?case by simp
next
  case (Cons x xs)
  obtain n where fuel: "fuel = Suc n" "need x \<le> n" "(\<Sum>x\<leftarrow>xs. Suc (need x)) \<le> n"
    using Cons.prems(2) by (cases fuel) auto
  show ?case
  proof (cases xs)
    case Nil
    have tail: "delimited (line_break @ indent @ '']'' @ rest)"
      by (simp add: delimited_def line_break_def)
    have "parse_value n (SerializeJSONProperty deeper x @ line_break @ indent @ '']'' @ rest)
            = Some (x, line_break @ indent @ '']'' @ rest)"
      using Cons.prems(3)[of x "line_break @ indent @ '']'' @ rest" n] tail fuel(2) by simp
    moreover have "skip_ws (line_break @ indent @ '']'' @ rest) = '']'' @ rest"
      using skip_ws_prefix[of "line_break @ indent" "'']'' @ rest"] ws(1) line_break_ws
      by (simp add: skip_ws_def is_ws_def)
    ultimately show ?thesis using Nil fuel(1) by simp
  next
    case (Cons y ys)
    let ?sep = "'','' @ line_break @ deeper"
    let ?more = "join ?sep (map (SerializeJSONProperty deeper) (y # ys)) @ line_break @ indent @ '']'' @ rest"
    have sep: "delimited (?sep @ ?more)"
      by (simp add: delimited_def)
    have first: "parse_value n (SerializeJSONProperty deeper x @ ?sep @ ?more) = Some (x, ?sep @ ?more)"
      using Cons.prems(3)[of x "?sep @ ?more" n] sep fuel(2) by simp
    have skip: "skip_ws (?sep @ ?more) = CHR '','' # line_break @ deeper @ ?more"
      by (simp add: skip_ws_def is_ws_def)
    have "parse_elements n ?more = Some (xs, rest)"
      using Cons.IH[of n] Cons.prems(3) fuel(3) Cons by simp
    then have "parse_elements n (line_break @ deeper @ ?more) = Some (xs, rest)"
      using parse_elements_ws[of "line_break @ deeper" n ?more] ws(2) line_break_ws by simp
    then show ?thesis
      using first skip fuel(1) Cons by simp
  qed
qed


lemma parse_members_joined:
  assumes IH: "\<And>k v fuel rest. (k, v) \<in> set kvs \<Longrightarrow> delimited rest \<Longrightarrow> need v \<le> fuel \<Longrightarrow>
                 parse_value fuel (SerializeJSONProperty deeper v @ rest) = Some (v, rest)"
    and ws: "list_all is_ws indent" "list_all is_ws deeper"
  shows "kvs \<noteq> [] \<Longrightarrow> (\<Sum>kv\<leftarrow>kvs. Suc (need (snd kv))) \<le> fuel \<Longrightarrow>
     parse_members fuel
       (join ('','' @ line_break @ deeper)
          (map (\<lambda>(k, v). QuoteJSONString k @ '': '' @ SerializeJSONProperty deeper v) kvs)
        @ line_break @ indent @ ''}'' @ rest) = Some (kvs, rest)"
  using IH
proof (induction kvs arbitrary: fuel)
  case Nil
  then show ?case by simp
next
  case (Cons kv kvs)
  obtain k v where kv: "kv = (k, v)" by (cases kv)
  obtain n where fuel: "fuel = Suc n" "need v \<le> n" "(\<Sum>kv\<leftarrow>kvs. Suc (need (snd kv))) \<le> n"
    using Cons.prems(2) kv by (cases fuel) auto
  have key: "read_chars (concat (map quote_char k) @ CHR 0x22 # t) = Some (k, t)" for t
    by (rule read_chars_quoted)
  have colon: "skip_ws ('': '' @ t) = CHR '':'' # CHR 0x20 # t" for t
    by (simp add: skip_ws_def is_ws_def)
  have space: "parse_value n (CHR 0x20 # t) = parse_value n t" for t
    using parse_value_ws[of "[CHR 0x20]" n t] by (simp add: is_ws_def)
  show ?case
  proof (cases kvs)
    case Nil
    let ?tail = "line_break @ indent @ ''}'' @ rest"
    have tail: "delimited ?tail"
      by (simp add: delimited_def line_break_def)
    have val: "parse_value n (SerializeJSONProperty deeper v @ ?tail) = Some (v, ?tail)"
      using Cons.prems(3)[of k v ?tail n] tail fuel(2) kv by simp
    have close: "skip_ws ?tail = ''}'' @ rest"
      using skip_ws_prefix[of "line_break @ indent" "''}'' @ rest"] ws(1) line_break_ws
      by (simp add: skip_ws_def is_ws_def)
    show ?thesis
      using Nil kv fuel(1) key colon space val close
      by (simp add: QuoteJSONString_def skip_ws_def is_ws_def)
  next
    case (Cons kv' kvs')
    let ?sep = "'','' @ line_break @ deeper"
    let ?more = "join ?sep (map (\<lambda>(k, v). QuoteJSONString k @ '': '' @ SerializeJSONProperty deeper v) (kv' # kvs'))
                 @ line_break @ indent @ ''}'' @ rest"
    have sep: "delimited (?sep @ ?more)"
      by (simp add: delimited_def)
    have val: "parse_value n (SerializeJSONProperty deeper v @ ?sep @ ?more) = Some (v, ?sep @ ?more)"
      using Cons.prems(3)[of k v "?sep @ ?more" n] sep fuel(2) kv by simp
    have skip: "skip_ws (?sep @ ?more) = CHR '','' # line_break @ deeper @ ?more"
      by (simp add: skip_ws_def is_ws_def)
    have inner: "parse_value fuel (SerializeJSONProperty deeper v @ rest) = Some (v, rest)"
      if "(k, v) \<in> set kvs" "delimited rest" "need v \<le> fuel" for k v rest fuel
      using Cons.prems(3)[of k v rest fuel] that by simp
    have "parse_members n ?more = Some (kvs, rest)"
      using Cons.IH[of n, OF _ _ inner] fuel(3) Cons by simp
    then have more: "parse_members n (line_break @ deeper @ ?more) = Some (kvs, rest)"
      using parse_members_ws[of "line_break @ deeper" n ?more] ws(2) line_break_ws by simp
    show ?thesis
      using Cons kv fuel(1) key colon space val skip more
      by (simp add: QuoteJSONString_def skip_ws_def is_ws_def)
  qed
qed

lemma update_fresh: "k \<notin> fst ` set al \<Longrightarrow> AList.update k v al = al @ [(k, v)]"
  by (induction al) auto

lemma create_properties_from:
  "distinct (map fst (obj @ kvs)) \<Longrightarrow>
   foldl (\<lambda>obj (k, v). AList.update k v obj) obj kvs = obj @ kvs"
proof (induction kvs arbitrary: obj)
  case Nil
  then show ?case by simp
next
  case (Cons kv kvs)
  obtain k v where kv: "kv = (k, v)" by (cases kv)
  have "k \<notin> fst ` set obj" using Cons.prems kv by auto
  then have "AList.update k v obj = obj @ [(k, v)]" by (rule update_fresh)
  then show ?case using Cons.IH[of "obj @ [(k, v)]"] Cons.prems kv by simp
qed

lemma create_properties_distinct: "distinct (map fst kvs) \<Longrightarrow> create_properties kvs = kvs"
  using create_properties_from[of "[]" kvs] by (simp add: create_properties_def)

lemma opens_value_facts:
  assumes "opens_value s"
  shows "skip_ws s = s" "take 1 s \<noteq> '']''" "take 1 s \<noteq> ''}''"
  using assms by (cases s; simp add: opens_value_def skip_ws_def)+

lemma parse_value_array:
  assumes "opens_value inner" "list_all is_ws pre" "parse_elements n inner = Some (xs, rest)"
  shows "parse_value (Suc n) (CHR ''['' # pre @ inner) = Some (JArray xs, rest)"
proof -
  have "skip_ws (pre @ inner) = inner"
    using skip_ws_prefix[OF assms(2), of inner] opens_value_facts(1)[OF assms(1)] by simp
  moreover have "parse_elements n (pre @ inner) = Some (xs, rest)"
    using parse_elements_ws[OF assms(2), of n inner] assms(3) by simp
  ultimately show ?thesis
    using opens_value_facts(2)[OF assms(1)] by (simp add: skip_ws_def is_ws_def)
qed

lemma parse_value_object:
  assumes "opens_value inner" "list_all is_ws pre" "parse_members n inner = Some (kvs, rest)"
  shows "parse_value (Suc n) (CHR ''{'' # pre @ inner) = Some (JObject (create_properties kvs), rest)"
proof -
  have "skip_ws (pre @ inner) = inner"
    using skip_ws_prefix[OF assms(2), of inner] opens_value_facts(1)[OF assms(1)] by simp
  moreover have "parse_members n (pre @ inner) = Some (kvs, rest)"
    using parse_members_ws[OF assms(2), of n inner] assms(3) by simp
  ultimately show ?thesis
    using opens_value_facts(3)[OF assms(1)] by (simp add: skip_ws_def is_ws_def)
qed

lemma parse_serialized:
  "proper v \<Longrightarrow> list_all is_ws indent \<Longrightarrow> delimited rest \<Longrightarrow> need v \<le> fuel \<Longrightarrow>
   parse_value fuel (SerializeJSONProperty indent v @ rest) = Some (v, rest)"
proof (induction v arbitrary: indent rest fuel)
  case JNull
  then obtain n where "fuel = Suc n" by (cases fuel) auto
  then show ?case by (simp add: skip_ws_def is_ws_def)
next
  case (JBool b)
  then obtain n where "fuel = Suc n" by (cases fuel) auto
  then show ?case by (cases b) (simp_all add: skip_ws_def is_ws_def)
next
  case (JNumber i)
  then obtain n where fuel: "fuel = Suc n" by (cases fuel) auto
  obtain c cs where first: "toString i = c # cs" "c = CHR ''-'' \<or> is_digit c"
    using toString_first by blast
  have c: "\<not> is_ws c" "c \<noteq> CHR ''[''" "c \<noteq> CHR ''{''" "c \<noteq> CHR 0x22"
    "c \<noteq> CHR ''n''" "c \<noteq> CHR ''t''" "c \<noteq> CHR ''f''"
    using first(2) by (auto simp: is_digit_def is_ws_def)
  have "read_number (c # cs @ rest) = Some (i, rest)"
    using read_number_toString[OF JNumber.prems(3), of i] first(1) by simp
  then show ?case
    using fuel first(1) c by (simp add: skip_ws_def)
next
  case (JString s)
  then obtain n where "fuel = Suc n" by (cases fuel) auto
  then show ?case
    using read_chars_quoted[of s rest] by (simp add: QuoteJSONString_def skip_ws_def is_ws_def)
next
  case (JArray xs)
  then obtain n where fuel: "fuel = Suc n" "(\<Sum>x\<leftarrow>xs. Suc (need x)) \<le> n" by (cases fuel) auto
  show ?case
  proof (cases "xs = []")
    case True
    then show ?thesis using fuel(1) by (simp add: skip_ws_def is_ws_def)
  next
    case False
    let ?deeper = "indent @ gap"
    let ?body = "join ('','' @ line_break @ ?deeper) (map (SerializeJSONProperty ?deeper) xs)
                 @ line_break @ indent @ '']'' @ rest"
    have deeper: "list_all is_ws ?deeper"
      using JArray.prems(2) gap_ws by simp
    have inner: "parse_value fuel (SerializeJSONProperty ?deeper x @ rest) = Some (x, rest)"
      if "x \<in> set xs" "delimited rest" "need x \<le> fuel" for x fuel rest
      using JArray.IH[of x ?deeper rest fuel] that JArray.prems(1) deeper by (simp add: list_all_iff)
    have elems: "parse_elements n ?body = Some (xs, rest)"
      using parse_elements_joined[of xs ?deeper indent n rest, OF inner JArray.prems(2) deeper False fuel(2)]
      by simp
    obtain x xs' where xs: "xs = x # xs'" using False by (cases xs) auto
    have "opens_value (SerializeJSONProperty ?deeper x)" by (rule serialized_opens)
    then have "opens_value ?body"
      using xs by (cases xs') (simp_all add: opens_value_append)
    then have "parse_value (Suc n) (CHR ''['' # (line_break @ ?deeper) @ ?body) = Some (JArray xs, rest)"
      using deeper line_break_ws elems by (intro parse_value_array) simp_all
    then show ?thesis
      using False fuel(1) by simp
  qed
next
  case (JObject kvs)
  then obtain n where fuel: "fuel = Suc n" "(\<Sum>kv\<leftarrow>kvs. Suc (need (snd kv))) \<le> n" by (cases fuel) auto
  show ?case
  proof (cases "kvs = []")
    case True
    then show ?thesis using fuel(1) by (simp add: skip_ws_def is_ws_def)
  next
    case False
    let ?deeper = "indent @ gap"
    let ?body = "join ('','' @ line_break @ ?deeper)
                   (map (\<lambda>(k, v). QuoteJSONString k @ '': '' @ SerializeJSONProperty ?deeper v) kvs)
                 @ line_break @ indent @ ''}'' @ rest"
    have deeper: "list_all is_ws ?deeper"
      using JObject.prems(2) gap_ws by simp
    have inner: "parse_value fuel (SerializeJSONProperty ?deeper v @ rest) = Some (v, rest)"
      if "(k, v) \<in> set kvs" "delimited rest" "need v \<le> fuel" for k v fuel rest
      using JObject.IH[of "(k, v)" v ?deeper rest fuel] that JObject.prems(1) deeper
      by (auto simp: list_all_iff)
    have members: "parse_members n ?body = Some (kvs, rest)"
      using parse_members_joined[of kvs ?deeper indent n rest, OF inner JObject.prems(2) deeper False fuel(2)]
      by simp
    obtain k v kvs' where kvs: "kvs = (k, v) # kvs'" using False by (cases kvs) auto
    have "opens_value ?body"
      using kvs by (cases kvs') (simp_all add: opens_value_def QuoteJSONString_def is_ws_def)
    then have "parse_value (Suc n) (CHR ''{'' # (line_break @ ?deeper) @ ?body)
                 = Some (JObject (create_properties kvs), rest)"
      using deeper line_break_ws members by (intro parse_value_object) simp_all
    moreover have "create_properties kvs = kvs"
      using JObject.prems(1) by (simp add: create_properties_distinct)
    ultimately show ?thesis
      using False fuel(1) by simp
  qed
qed

lemma join_length_lower:
  assumes "\<And>x. x \<in> set xs \<Longrightarrow> m x \<le> length (g x)" "sep \<noteq> []"
  shows "(\<Sum>x\<leftarrow>xs. Suc (m x)) \<le> Suc (length (join sep (map g xs)))"
  using assms(1)
proof (induction xs)
  case Nil
  then show ?case by simp
next
  case (Cons x xs)
  have x: "m x \<le> length (g x)" using Cons.prems by simp
  have sep: "1 \<le> length sep" using assms(2) by (cases sep) auto
  show ?case
  proof (cases xs)
    case Nil
    then show ?thesis using x by simp
  next
    case (Cons y ys)
    have "(\<Sum>x\<leftarrow>xs. Suc (m x)) \<le> Suc (length (join sep (map g xs)))"
      using Cons.IH Cons.prems by simp
    then show ?thesis using x sep Cons by simp
  qed
qed

lemma toString_not_empty: "toString i \<noteq> []"
  using toString_first[of i] by auto

lemma need_le_length: "need v \<le> length (SerializeJSONProperty indent v)"
proof (induction v arbitrary: indent)
  case (JNumber i)
  then show ?case using toString_not_empty[of i] by (cases "toString i") auto
next
  case (JString s)
  then show ?case by (simp add: QuoteJSONString_def)
next
  case (JArray xs)
  show ?case
  proof (cases "xs = []")
    case True
    then show ?thesis by simp
  next
    case False
    have "(\<Sum>x\<leftarrow>xs. Suc (need x))
            \<le> Suc (length (join ('','' @ line_break @ (indent @ gap)) (map (SerializeJSONProperty (indent @ gap)) xs)))"
      by (rule join_length_lower) (use JArray.IH in simp_all)
    then show ?thesis using False by (simp add: line_break_def)
  qed
next
  case (JObject kvs)
  show ?case
  proof (cases "kvs = []")
    case True
    then show ?thesis by simp
  next
    case False
    have each: "need (snd kv) \<le> length ((\<lambda>(k, v). QuoteJSONString k @ '': '' @ SerializeJSONProperty (indent @ gap) v) kv)"
      if "kv \<in> set kvs" for kv
    proof -
      obtain k v where kv: "kv = (k, v)" by (cases kv)
      have "need v \<le> length (SerializeJSONProperty (indent @ gap) v)"
        using JObject.IH[of kv v "indent @ gap"] that kv by simp
      then show ?thesis using kv by simp
    qed
    have "(\<Sum>kv\<leftarrow>kvs. Suc (need (snd kv)))
            \<le> Suc (length (join ('','' @ line_break @ (indent @ gap))
                 (map (\<lambda>(k, v). QuoteJSONString k @ '': '' @ SerializeJSONProperty (indent @ gap) v) kvs)))"
      by (rule join_length_lower) (use each in simp_all)
    then show ?thesis using False by (simp add: line_break_def)
  qed
qed simp_all

theorem JSON_parse_stringify: "proper v \<Longrightarrow> JSON_parse (JSON_stringify v) = Some v"
  using parse_serialized[of v "[]" "[]" "length (SerializeJSONProperty [] v)"] need_le_length[of v "[]"]
  by (simp add: JSON_parse_def JSON_stringify_def delimited_def skip_ws_def)

lemma toString_inj: "toString i = toString j \<Longrightarrow> i = j"
  using read_integer_toString[of "[]" i] read_integer_toString[of "[]" j]
  by (simp add: delimited_def)

lemma proper_question: "proper (json_of_question q)"
  by (cases "accepted_answer_id q") (simp_all add: json_of_question_def optional_property_def list_all_iff)

lemma proper_answer: "proper (json_of_answer a)"
  by (cases "answer_id a") (simp_all add: json_of_answer_def optional_property_def)

lemma proper_comment: "proper (json_of_comment c)"
  by (simp add: json_of_comment_def)

lemma distinct_keys_sort:
  "distinct (map fst (sort_key fst xs)) \<longleftrightarrow> distinct (map fst xs)"
  by (simp add: distinct_map)

lemma own_property_order_distinct:
  assumes "distinct (map fst m)"
  shows "distinct (map fst (own_property_order m))"
proof -
  have "distinct (map fst (filter (\<lambda>kv. is_array_index (fst kv)) m))"
    and "distinct (map fst (filter (\<lambda>kv. \<not> is_array_index (fst kv)) m))"
    using assms by (simp_all add: distinct_map_filter)
  then show ?thesis
    by (auto simp: own_property_order_def distinct_keys_sort)
qed

lemma proper_comments:
  assumes "distinct (map fst (SearchResultComments.answers c))"
  shows "proper (json_of_comments c)"
proof -
  let ?m = "own_property_order (SearchResultComments.answers c)"
  have keys: "map fst (map (\<lambda>(k, cs). (toString k, JArray (map json_of_comment cs))) ?m)
        = map toString (map fst ?m)"
    by (induction ?m) (simp_all add: case_prod_beta)
  have "distinct (map toString (map fst ?m))"
    using own_property_order_distinct[OF assms] toString_inj
    by (simp add: distinct_map inj_on_def)
  then have "distinct (map fst (map (\<lambda>(k, cs). (toString k, JArray (map json_of_comment cs))) ?m))"
    unfolding keys .
  then show ?thesis
    by (simp add: json_of_comments_def list_all_iff proper_comment case_prod_beta)
qed

lemma proper_result:
  assumes "\<forall>c. comments r = Some c \<longrightarrow> distinct (map fst (SearchResultComments.answers c))"
  shows "proper (json_of_result r)"
  using assms
  by (cases "comments r")
     (simp_all add: json_of_result_def optional_property_def list_all_iff proper_question proper_answer proper_comments)

lemma own_property_order_set: "set (own_property_order m) = set m"
  by (auto simp: own_property_order_def)

lemma own_property_order_map_of:
  assumes "distinct (map fst m)"
  shows "map_of (own_property_order m) = map_of m"
  using assms own_property_order_distinct[OF assms] own_property_order_set[of m]
  by (simp add: map_of_inject_set)

lemma those_map_id: "(\<And>x. x \<in> set xs \<Longrightarrow> f (e x) = Some x) \<Longrightarrow> those (map f (map e xs)) = Some xs"
  by (induction xs) simp_all

lemma array_of_map: "(\<And>x. dec (enc x) = Some x) \<Longrightarrow> array_of dec (Some (JArray (map enc xs))) = Some xs"
  using those_map_id[of xs dec enc] by (simp add: array_of_def del: map_map)

lemma question_of_json_of: "question_of_json (json_of_question q) = Some q"
proof -
  have tags: "array_of string_of_json (Some (JArray (map JString (StackOverflowQuestion.tags q))))
      = Some (StackOverflowQuestion.tags q)"
    by (rule array_of_map) (simp add: string_of_json_def)
  show ?thesis
    by (cases "accepted_answer_id q")
       (simp_all add: question_of_json_def json_of_question_def optional_property_def
          only_properties_def property_def number_of_def text_of_def boolean_of_def
          optional_number_of_def tags)
qed

lemma answer_of_json_of: "answer_of_json (json_of_answer a) = Some a"
  by (cases "answer_id a")
     (simp_all add: answer_of_json_def json_of_answer_def optional_property_def
        only_properties_def property_def number_of_def text_of_def boolean_of_def
        optional_number_of_def)

lemma comment_of_json_of: "comment_of_json (json_of_comment c) = Some c"
  by (simp add: comment_of_json_def json_of_comment_def
        only_properties_def property_def number_of_def text_of_def)

lemma key_of_toString: "key_of (toString k) = Some k"
  using read_integer_toString[of "[]" k] by (simp add: key_of_def delimited_def)

lemma dictionary_of_object:
  "dictionary_of (Some (JObject (map (\<lambda>(k, cs). (toString k, JArray (map json_of_comment cs))) m))) = Some m"
proof -
  have "those (map (\<lambda>(k, x). do {
                   i \<leftarrow> key_of k;
                   cs \<leftarrow> array_of comment_of_json (Some x);
                   Some (i, cs) }) (map (\<lambda>(k, cs). (toString k, JArray (map json_of_comment cs))) m)) = Some m"
    by (rule those_map_id) (auto simp: key_of_toString array_of_map comment_of_json_of)
  then show ?thesis by (simp add: dictionary_of_def)
qed

lemma comments_of_json_of:
  "comments_of_json (json_of_comments c)
     = Some (c\<lparr>SearchResultComments.answers := own_property_order (SearchResultComments.answers c)\<rparr>)"
  by (simp add: comments_of_json_def json_of_comments_def only_properties_def property_def
        array_of_map comment_of_json_of dictionary_of_object)

lemma same_entries_iff: "same_entries m m' \<longleftrightarrow> map_of m = map_of m'"
proof
  assume h: "same_entries m m'"
  show "map_of m = map_of m'"
  proof
    fix k
    show "map_of m k = map_of m' k"
    proof (cases "k \<in> fst ` set m \<union> fst ` set m'")
      case True
      then show ?thesis using h by (auto simp: same_entries_def list_all_iff)
    next
      case False
      then have "map_of m k = None" "map_of m' k = None"
        by (simp_all add: map_of_eq_None_iff)
      then show ?thesis by simp
    qed
  qed
next
  assume "map_of m = map_of m'"
  then show "same_entries m m'" by (simp add: same_entries_def list_all_iff)
qed

lemma result_of_json_of:
  assumes "\<forall>c. comments r = Some c \<longrightarrow> distinct (map fst (SearchResultComments.answers c))"
  shows "\<exists>r'. result_of_json (json_of_result r) = Some r' \<and> deep_equal r' r"
proof (cases "comments r")
  case None
  then have "result_of_json (json_of_result r) = Some r"
    by (simp add: result_of_json_def json_of_result_def optional_property_def only_properties_def
          property_def question_of_json_of array_of_map answer_of_json_of)
  then show ?thesis using None by (simp add: deep_equal_def)
next
  case (Some c)
  let ?c = "c\<lparr>SearchResultComments.answers := own_property_order (SearchResultComments.answers c)\<rparr>"
  have "result_of_json (json_of_result r) = Some (r\<lparr>comments := Some ?c\<rparr>)"
    using Some
    by (simp add: result_of_json_def json_of_result_def optional_property_def only_properties_def
          property_def question_of_json_of array_of_map answer_of_json_of comments_of_json_of)
  moreover have "deep_equal (r\<lparr>comments := Some ?c\<rparr>) r"
    using Some assms by (simp add: deep_equal_def same_entries_iff own_property_order_map_of)
  ultimately show ?thesis by blast
qed

lemma results_of_json_of:
  assumes "\<forall>r\<in>set results. \<forall>c. comments r = Some c \<longrightarrow> distinct (map fst (SearchResultComments.answers c))"
  shows "\<exists>rs. results_of_json (JArray (map json_of_result results)) = Some rs \<and> list_all2 deep_equal rs results"
  using assms
proof (induction results)
  case Nil
  then show ?case by (simp add: results_of_json_def array_of_def)
next
  case (Cons r results)
  obtain r' where r': "result_of_json (json_of_result r) = Some r'" "deep_equal r' r"
    using result_of_json_of[of r] Cons.prems by auto
  obtain rs where rs: "results_of_json (JArray (map json_of_result results)) = Some rs"
      "list_all2 deep_equal rs results"
    using Cons by auto
  have "results_of_json (JArray (map json_of_result (r # results))) = Some (r' # rs)"
    using r'(1) rs(1) by (simp add: results_of_json_def array_of_def)
  then show ?case using r'(2) rs(2) by simp
qed

lemma formatResponse_parsed:
  assumes "\<forall>r\<in>set results. \<forall>c. comments r = Some c \<longrightarrow> distinct (map fst (SearchResultComments.answers c))"
  shows "JSON_parse (formatResponse results (Some Json)) = Some (JArray (map json_of_result results))"
proof -
  have "proper (JArray (map json_of_result results))"
    using assms by (simp add: list_all_iff proper_result)
  then show ?thesis
    by (simp add: formatResponse_def JSON_parse_stringify)
qed

text \<open>
  Claim C7. The text that \<open>formatResponse\<close> writes in JSON mode parses, and the parsed
  value, read as an array of composite results, is deep-equal to the results given: this
  for every list of composite results (the dictionary of answer comments being an object,
  it has one entry per key). For the empty list the JSON text is the empty array \<open>[]\<close>,
  and the Markdown text is the empty string.
\<close>

theorem formatResponse_roundtrip:
  "((\<forall>r\<in>set results. \<forall>c. comments r = Some c \<longrightarrow> distinct (map fst (SearchResultComments.answers c))) \<longrightarrow>
      (\<exists>rs. Option.bind (JSON_parse (formatResponse results (Some Json))) results_of_json = Some rs
            \<and> list_all2 deep_equal rs results))
   \<and> formatResponse [] (Some Json) = ''[]''
   \<and> formatResponse [] (Some Markdown) = []"
proof (intro conjI impI)
  assume h: "\<forall>r\<in>set results. \<forall>c. comments r = Some c \<longrightarrow> distinct (map fst (SearchResultComments.answers c))"
  show "\<exists>rs. Option.bind (JSON_parse (formatResponse results (Some Json))) results_of_json = Some rs
            \<and> list_all2 deep_equal rs results"
    using results_of_json_of[OF h] formatResponse_parsed[OF h] by simp
next
  show "formatResponse [] (Some Json) = ''[]''"
    by (simp add: formatResponse_def JSON_stringify_def)
next
  show "formatResponse [] (Some Markdown) = []"
    by (simp add: formatResponse_def)
qed

theorem formatResponse_roundtrip_witness:
  "\<exists>rs. Option.bind (JSON_parse (formatResponse [sample_result (sample_question 1 4) [sample_comment],
                               \<lparr>SearchResult.question = sample_question 2 (- 3), SearchResult.answers = [],
                                comments = None\<rparr>] (Some Json))) results_of_json = Some rs
     \<and> list_all2 deep_equal rs
         [sample_result (sample_question 1 4) [sample_comment],
          \<lparr>SearchResult.question = sample_question 2 (- 3), SearchResult.answers = [], comments = None\<rparr>]"
proof -
  let ?rs = "[sample_result (sample_question 1 4) [sample_comment],
              \<lparr>SearchResult.question = sample_question 2 (- 3), SearchResult.answers = [], comments = None\<rparr>]"
  have "\<forall>r\<in>set ?rs. \<forall>c. comments r = Some c \<longrightarrow> distinct (map fst (SearchResultComments.answers c))"
    by (auto simp: sample_result_def)
  then show ?thesis
    using formatResponse_roundtrip[of ?rs] by blast
qed

lemma map_JString_inj: "map JString xs = map JString ys \<Longrightarrow> xs = ys"
  using map_injective[of JString xs ys] by (simp add: inj_def)

lemma json_of_question_inj: "json_of_question q = json_of_question q' \<Longrightarrow> q = q'"
  by (cases q; cases q'; cases "accepted_answer_id q"; cases "accepted_answer_id q'")
     (auto simp: json_of_question_def optional_property_def dest: map_JString_inj)

lemma json_of_answer_inj: "json_of_answer a = json_of_answer a' \<Longrightarrow> a = a'"
  by (cases a; cases a'; cases "answer_id a"; cases "answer_id a'")
     (auto simp: json_of_answer_def optional_property_def)

lemma json_of_comment_inj: "json_of_comment c = json_of_comment c' \<Longrightarrow> c = c'"
  by (cases c; cases c') (auto simp: json_of_comment_def)

lemma map_json_of_comment_inj: "map json_of_comment cs = map json_of_comment cs' \<Longrightarrow> cs = cs'"
  using map_injective[of json_of_comment cs cs'] json_of_comment_inj by (auto simp: inj_def)

lemma map_json_of_answer_inj: "map json_of_answer ans = map json_of_answer ans' \<Longrightarrow> ans = ans'"
  using map_injective[of json_of_answer ans ans'] json_of_answer_inj by (auto simp: inj_def)

lemma answers_object_inj:
  "map (\<lambda>(k, cs). (toString k, JArray (map json_of_comment cs))) m
     = map (\<lambda>(k, cs). (toString k, JArray (map json_of_comment cs))) m' \<Longrightarrow> m = m'"
  using map_injective[of "\<lambda>(k, cs). (toString k, JArray (map json_of_comment cs))" m m']
  by (auto simp: inj_def dest: toString_inj map_json_of_comment_inj)

lemma json_of_comments_inj:
  assumes "json_of_comments c = json_of_comments c'"
    and "distinct (map fst (SearchResultComments.answers c))"
    and "distinct (map fst (SearchResultComments.answers c'))"
  shows "SearchResultComments.question c = SearchResultComments.question c'
         \<and> map_of (SearchResultComments.answers c) = map_of (SearchResultComments.answers c')"
proof -
  have q: "SearchResultComments.question c = SearchResultComments.question c'"
    and "own_property_order (SearchResultComments.answers c)
         = own_property_order (SearchResultComments.answers c')"
    using assms(1) by (auto simp: json_of_comments_def dest: map_json_of_comment_inj answers_object_inj)
  then have "map_of (SearchResultComments.answers c) = map_of (SearchResultComments.answers c')"
    using own_property_order_map_of[OF assms(2)] own_property_order_map_of[OF assms(3)] by simp
  then show ?thesis using q by simp
qed

text \<open>
  The JSON value of a composite result determines the result: its question, its answers,
  and its comments up to the order in which the entries of the mapping were created.
\<close>

lemma json_of_result_inj:
  assumes "json_of_result r = json_of_result r'"
    and "\<forall>c. comments r = Some c \<longrightarrow> distinct (map fst (SearchResultComments.answers c))"
    and "\<forall>c. comments r' = Some c \<longrightarrow> distinct (map fst (SearchResultComments.answers c))"
  shows "SearchResult.question r = SearchResult.question r'
         \<and> SearchResult.answers r = SearchResult.answers r'
         \<and> rel_option (\<lambda>c c'. SearchResultComments.question c = SearchResultComments.question c'
               \<and> map_of (SearchResultComments.answers c) = map_of (SearchResultComments.answers c'))
             (comments r) (comments r')"
  using assms
  by (cases "comments r"; cases "comments r'")
     (auto simp: json_of_result_def optional_property_def
           dest: json_of_question_inj map_json_of_answer_inj json_of_comments_inj)

end
